theory Spec2Isabelle
  imports Complex_Main
begin

section \<open>Numbers, arrays and failures\<close>

text \<open>
  The helpers of Keraon compute on NumPy arrays of 64-bit floats. Where nothing else is
  said, the embedding reads a float as a real number, a one-dimensional array as a list of
  reals and a two-dimensional array as a list of rows: there a statement is about the exact
  arithmetic the code approximates. Where the code goes on with an infinity or a NaN (the
  weights of a prediction, the score of a feature mask, a division by a norm that is zero)
  the value is an \<open>xfloat\<close>, below, and the orthogonalisation takes the rounding of every
  operation as a parameter. Exceptions are values: every function that can raise returns
  \<open>error + 'a\<close>, with \<open>Inl\<close> for the exception. \<open>NotFinite\<close> is not an exception of
  Python: it marks the mean of an empty array, which NumPy returns as NaN and which the
  objective of the feature search never uses, and, in the exact orthogonalisation of the
  proofs, a residual of norm zero.
\<close>

datatype error = IndexError | KeyError | ValueError | LinAlgError | RecursionError | NotFinite

type_synonym vec = "real list"

type_synonym matrix = "real list list"

text \<open>Elementwise arithmetic of one-dimensional arrays, with NumPy's broadcasting of a
  length-one operand; two lengths that differ and are both other than one raise.\<close>

definition broadcast2 :: "(real \<Rightarrow> real \<Rightarrow> real) \<Rightarrow> vec \<Rightarrow> vec \<Rightarrow> error + vec" where
  "broadcast2 f a b =
     (if length a = length b then Inr (map2 f a b)
      else if length a = 1 then Inr (map (f (hd a)) b)
      else if length b = 1 then Inr (map (\<lambda>x. f x (hd b)) a)
      else Inl ValueError)"

definition np_add :: "vec \<Rightarrow> vec \<Rightarrow> error + vec" where
  "np_add = broadcast2 (+)"

definition scale :: "real \<Rightarrow> vec \<Rightarrow> vec" where
  "scale c v = map ((*) c) v"

text \<open>\<open>np.eye(n)\<close>: the n-by-n identity matrix.\<close>

definition np_eye :: "nat \<Rightarrow> matrix" where
  "np_eye n = map (\<lambda>i. map (\<lambda>j. if i = j then 1 else 0) [0..<n]) [0..<n]"

text \<open>\<open>np.arange(start, stop, step)\<close> for a positive step: \<open>ceil((stop - start) / step)\<close>
  points \<open>start + i * step\<close>.\<close>

definition np_arange :: "real \<Rightarrow> real \<Rightarrow> real \<Rightarrow> real list" where
  "np_arange start stop step =
     map (\<lambda>i. start + real i * step) [0..<nat \<lceil>(stop - start) / step\<rceil>]"

text \<open>\<open>xs.index(x)\<close>: the position of the first occurrence; \<open>ValueError\<close> when there is none.\<close>

fun index_of :: "'a list \<Rightarrow> 'a \<Rightarrow> error + nat" where
  "index_of [] x = Inl ValueError"
| "index_of (y # ys) x =
     (if y = x then Inr 0
      else (case index_of ys x of Inl e \<Rightarrow> Inl e | Inr i \<Rightarrow> Inr (Suc i)))"

text \<open>\<open>xs[i]\<close> for a non-negative index.\<close>

definition item :: "'a list \<Rightarrow> nat \<Rightarrow> error + 'a" where
  "item xs i = (if i < length xs then Inr (xs ! i) else Inl IndexError)"

text \<open>A \<open>for\<close> loop that appends one result per element and stops at the first exception.\<close>

fun collect :: "('a \<Rightarrow> error + 'b) \<Rightarrow> 'a list \<Rightarrow> error + 'b list" where
  "collect f [] = Inr []"
| "collect f (x # xs) =
     (case f x of
        Inl e \<Rightarrow> Inl e
      | Inr y \<Rightarrow> (case collect f xs of Inl e \<Rightarrow> Inl e | Inr ys \<Rightarrow> Inr (y # ys)))"

text \<open>
  Floats that need not be finite. \<open>ext\<close> is a float that is a number, finite or
  infinite, and \<open>xfloat\<close> adds NaN. Zero is one value: the sign of a zero is not modelled,
  and the zero divisors of the code below are norms, distances and sums of products of
  variances, which are never negative zeros. Overflow and underflow are not modelled either:
  a finite result stays finite, and what is not zero stays so.
\<close>

datatype ext = NInf | Fin real | PInf

datatype xfloat = NaN | Val ext

abbreviation fin :: "real \<Rightarrow> xfloat" where
  "fin r \<equiv> Val (Fin r)"

text \<open>\<open>a < b\<close> for numbers.\<close>

fun ext_less :: "ext \<Rightarrow> ext \<Rightarrow> bool" where
  "ext_less NInf b = (b \<noteq> NInf)"
| "ext_less (Fin a) NInf = False"
| "ext_less (Fin a) (Fin b) = (a < b)"
| "ext_less (Fin a) PInf = True"
| "ext_less PInf b = False"

text \<open>\<open>value > best\<close> for a float \<open>value\<close> and a number \<open>best\<close>: a comparison with NaN
  is false.\<close>

fun above :: "xfloat \<Rightarrow> ext \<Rightarrow> bool" where
  "above NaN best = False"
| "above (Val v) best = ext_less best v"

text \<open>Float division \<open>a / b\<close>.\<close>

fun ext_div :: "ext \<Rightarrow> ext \<Rightarrow> xfloat" where
  "ext_div (Fin a) (Fin b) =
     (if b \<noteq> 0 then fin (a / b)
      else if 0 < a then Val PInf else if a < 0 then Val NInf else NaN)"
| "ext_div (Fin a) b = fin 0"
| "ext_div PInf (Fin b) = (if 0 \<le> b then Val PInf else Val NInf)"
| "ext_div NInf (Fin b) = (if 0 \<le> b then Val NInf else Val PInf)"
| "ext_div a b = NaN"

fun xdiv :: "xfloat \<Rightarrow> xfloat \<Rightarrow> xfloat" where
  "xdiv (Val a) (Val b) = ext_div a b"
| "xdiv a b = NaN"

text \<open>Float addition, negation, subtraction and multiplication.\<close>

fun ext_add :: "ext \<Rightarrow> ext \<Rightarrow> xfloat" where
  "ext_add (Fin a) (Fin b) = fin (a + b)"
| "ext_add PInf NInf = NaN"
| "ext_add NInf PInf = NaN"
| "ext_add (Fin a) b = Val b"
| "ext_add a b = Val a"

fun xadd :: "xfloat \<Rightarrow> xfloat \<Rightarrow> xfloat" where
  "xadd (Val a) (Val b) = ext_add a b"
| "xadd a b = NaN"

fun xneg :: "xfloat \<Rightarrow> xfloat" where
  "xneg NaN = NaN"
| "xneg (Val NInf) = Val PInf"
| "xneg (Val (Fin a)) = fin (- a)"
| "xneg (Val PInf) = Val NInf"

definition xsub :: "xfloat \<Rightarrow> xfloat \<Rightarrow> xfloat" where
  "xsub a b = xadd a (xneg b)"

text \<open>An infinity times \<open>b\<close>.\<close>

definition signed :: "ext \<Rightarrow> real \<Rightarrow> xfloat" where
  "signed a b = (if 0 < b then Val a else if b < 0 then xneg (Val a) else NaN)"

fun ext_mul :: "ext \<Rightarrow> ext \<Rightarrow> xfloat" where
  "ext_mul (Fin a) (Fin b) = fin (a * b)"
| "ext_mul (Fin a) b = signed b a"
| "ext_mul a (Fin b) = signed a b"
| "ext_mul a b = (if a = b then Val PInf else Val NInf)"

fun xmul :: "xfloat \<Rightarrow> xfloat \<Rightarrow> xfloat" where
  "xmul (Val a) (Val b) = ext_mul a b"
| "xmul a b = NaN"

text \<open>\<open>np.exp\<close>, \<open>np.sqrt\<close> and \<open>np.maximum\<close>, which returns NaN if either argument is
  NaN.\<close>

fun xexp :: "xfloat \<Rightarrow> xfloat" where
  "xexp NaN = NaN"
| "xexp (Val NInf) = fin 0"
| "xexp (Val (Fin a)) = fin (exp a)"
| "xexp (Val PInf) = Val PInf"

fun xsqrt :: "xfloat \<Rightarrow> xfloat" where
  "xsqrt (Val (Fin a)) = (if a < 0 then NaN else fin (sqrt a))"
| "xsqrt (Val PInf) = Val PInf"
| "xsqrt a = NaN"

fun xmax :: "xfloat \<Rightarrow> xfloat \<Rightarrow> xfloat" where
  "xmax (Val a) (Val b) = (if ext_less a b then Val b else Val a)"
| "xmax a b = NaN"

text \<open>The rounding \<open>rnd\<close> of a finite result to a float; for the exact arithmetic it is the
  identity.\<close>

fun rounded :: "(real \<Rightarrow> real) \<Rightarrow> xfloat \<Rightarrow> xfloat" where
  "rounded rnd (Val (Fin a)) = fin (rnd a)"
| "rounded rnd a = a"

section \<open>The Gaussian mixture likelihood\<close>

text \<open>
  \<open>scipy.stats.multivariate_normal.logpdf(x, mean, cov)\<close> is a library function. The
  model takes it as a parameter \<open>logpdf\<close>, which may raise (it validates the shapes of
  its arguments). \<open>std_normal_logpdf\<close> is the instance the source reaches: the
  log-density of the normal distribution with identity covariance,
  \<open>-(d * ln (2 * pi) + |x - mean|\<^sup>2) / 2\<close>. It is defined for the identity covariance
  only and answers \<open>ValueError\<close> elsewhere.
\<close>

type_synonym logpdf_fn = "vec \<Rightarrow> vec \<Rightarrow> matrix \<Rightarrow> error + real"

definition std_normal_logpdf :: logpdf_fn where
  "std_normal_logpdf x mean cov =
     (if length x = length mean \<and> cov = np_eye (length mean)
      then Inr (- (real (length mean) * ln (2 * pi)
                   + sum_list (map2 (\<lambda>a b. (a - b)\<^sup>2) x mean)) / 2)
      else Inl ValueError)"

text \<open>One pass of the loop of \<open>calculate_log_likelihoods\<close>, for one subtype.\<close>

definition subtype_log_likelihood ::
  "logpdf_fn \<Rightarrow> real \<Rightarrow> vec \<Rightarrow> vec \<Rightarrow> matrix \<Rightarrow> vec list \<Rightarrow> string list \<Rightarrow> string \<Rightarrow> error + real" where
  "subtype_log_likelihood logpdf tfx feature_vals mu_healthy cov_healthy mu_subs subtypes subtype =
     (case index_of subtypes subtype of
        Inl e \<Rightarrow> Inl e
      | Inr i \<Rightarrow>
          (case item mu_subs i of
             Inl e \<Rightarrow> Inl e
           | Inr mu_sub \<Rightarrow>
               (case np_add (scale tfx mu_sub) (scale (1 - tfx) mu_healthy) of
                  Inl e \<Rightarrow> Inl e
                | Inr mu_mixture \<Rightarrow>
                    (let cov_mixture = np_eye (length cov_healthy)
                     in logpdf feature_vals mu_mixture cov_mixture))))"

definition calculate_log_likelihoods ::
  "logpdf_fn \<Rightarrow> real \<Rightarrow> vec \<Rightarrow> vec \<Rightarrow> matrix \<Rightarrow> vec list \<Rightarrow> string list \<Rightarrow> error + real list" where
  "calculate_log_likelihoods logpdf tfx feature_vals mu_healthy cov_healthy mu_subs subtypes =
     collect (subtype_log_likelihood logpdf tfx feature_vals mu_healthy cov_healthy mu_subs subtypes)
       subtypes"

section \<open>The grid search for the tumor fraction\<close>

text \<open>\<open>best_ll\<close> starts at \<open>float('inf')\<close>: \<open>None\<close> stands for it, and every real is
  below it.\<close>

fun below :: "real \<Rightarrow> real option \<Rightarrow> bool" where
  "below ll None = True"
| "below ll (Some best_ll) = (ll < best_ll)"

text \<open>The loop of \<open>optimize_tfx\<close> over the candidates that remain, from the best candidate
  and its score so far.\<close>

fun grid_search :: "(real \<Rightarrow> error + real list) \<Rightarrow> real list \<Rightarrow> real \<Rightarrow> real option \<Rightarrow> error + real" where
  "grid_search lls_at [] best_tfx best_ll = Inr best_tfx"
| "grid_search lls_at (try_tfx # rest) best_tfx best_ll =
     (case lls_at try_tfx of
        Inl e \<Rightarrow> Inl e
      | Inr log_likelihoods \<Rightarrow>
          (let ll = - sum_list (map exp log_likelihoods)
           in if below ll best_ll then grid_search lls_at rest try_tfx (Some ll)
              else grid_search lls_at rest best_tfx best_ll))"

definition tfx_grid :: "real list" where
  "tfx_grid = np_arange 0 (1001 / 1000) (1 / 1000)"

definition optimize_tfx ::
  "logpdf_fn \<Rightarrow> vec \<Rightarrow> vec \<Rightarrow> matrix \<Rightarrow> vec list \<Rightarrow> string list \<Rightarrow> error + real" where
  "optimize_tfx logpdf feature_vals mu_healthy cov_healthy mu_subs subtypes =
     grid_search
       (\<lambda>try_tfx. calculate_log_likelihoods logpdf try_tfx feature_vals mu_healthy cov_healthy
          mu_subs subtypes)
       tfx_grid 0 None"

text \<open>The property of a Gaussian log-density that the search relies on: at a fixed point
  \<open>x\<close> and covariance, no mean of the dimension of \<open>x\<close> gives a larger value than the
  mean \<open>x\<close> itself (and the library call does not raise for such a mean).\<close>

definition peaks_at_mean :: "logpdf_fn \<Rightarrow> vec \<Rightarrow> matrix \<Rightarrow> bool" where
  "peaks_at_mean logpdf x cov =
     (\<forall>m. length m = length x \<longrightarrow>
        (\<exists>r r0. logpdf x m cov = Inr r \<and> logpdf x x cov = Inr r0 \<and> r \<le> r0))"

section \<open>Recording a prediction\<close>

text \<open>
  The predictions table is a pandas DataFrame, read and written through
  \<open>predictions.loc[row, column]\<close>. The model is a map from a row label and a column label
  to the entry there (\<open>None\<close> where the table has no such entry), with row labels unique;
  an assignment to \<open>.loc[row, column]\<close> writes this one entry, creating it when it is new.
  An entry is a float, which may be NaN, or a label.
\<close>

datatype entry = Float xfloat | Label string

type_synonym 'r table = "'r \<Rightarrow> string \<Rightarrow> entry option"

definition loc_set :: "'r table \<Rightarrow> 'r \<Rightarrow> string \<Rightarrow> entry \<Rightarrow> 'r table" where
  "loc_set predictions row column v = predictions(row := (predictions row)(column \<mapsto> v))"

text \<open>\<open>np.amax\<close> of a one-dimensional array: the greatest element, NaN if there is a NaN;
  it raises on an empty array.\<close>

definition np_amax :: "xfloat list \<Rightarrow> error + xfloat" where
  "np_amax xs = (if xs = [] then Inl ValueError else Inr (foldl xmax (hd xs) (tl xs)))"

text \<open>
  \<open>scipy.special.softmax\<close> computes \<open>exp(x) / sum(exp(x))\<close> as SciPy does, shifted by the
  greatest element: \<open>x_max = np.amax(x)\<close>, \<open>exp_x_shifted = np.exp(x - x_max)\<close> and
  \<open>exp_x_shifted / np.sum(exp_x_shifted)\<close>. It raises on an empty array. With a NaN or
  \<open>+inf\<close> among the elements, or with every element \<open>-inf\<close>, every weight is NaN.
\<close>

definition softmax :: "xfloat list \<Rightarrow> error + xfloat list" where
  "softmax x =
     (case np_amax x of
        Inl e \<Rightarrow> Inl e
      | Inr x_max \<Rightarrow>
          (let exp_x_shifted = map (\<lambda>xi. xexp (xsub xi x_max)) x;
               total = foldl xadd (fin 0) exp_x_shifted
           in Inr (map (\<lambda>ei. xdiv ei total) exp_x_shifted)))"

text \<open>\<open>np.round(x, decimals)\<close>: scale by \<open>10 ^ decimals\<close>, round to the nearest integer with
  ties going to the even one, and scale back. An infinity and NaN stay what they are.\<close>

definition rint :: "real \<Rightarrow> int" where
  "rint x =
     (let f = \<lfloor>x\<rfloor>; d = x - of_int f
      in if d < 1 / 2 then f else if 1 / 2 < d then f + 1 else if even f then f else f + 1)"

definition np_round :: "real \<Rightarrow> nat \<Rightarrow> real" where
  "np_round x decimals = of_int (rint (x * 10 ^ decimals)) / 10 ^ decimals"

definition np_round_float :: "xfloat \<Rightarrow> nat \<Rightarrow> xfloat" where
  "np_round_float x decimals = rounded (\<lambda>a. np_round a decimals) x"

text \<open>
  The loop of \<open>update_predictions\<close> over the subtypes that remain. It carries the table,
  \<open>max_weight\<close> and \<open>max_subtype\<close>; an exception leaves the entries written so far in the
  table. \<open>max_weight\<close> starts at \<open>0\<close> and is only ever assigned a weight that passed
  \<open>weight > max_weight\<close>, which no NaN does: it is a number.
\<close>

fun weights_loop ::
  "xfloat list \<Rightarrow> string list \<Rightarrow> 'r \<Rightarrow> string list \<Rightarrow> 'r table \<Rightarrow> ext \<Rightarrow> string
     \<Rightarrow> error option \<times> 'r table \<times> ext \<times> string" where
  "weights_loop weights subtypes sample [] predictions max_weight max_subtype =
     (None, predictions, max_weight, max_subtype)"
| "weights_loop weights subtypes sample (subtype # rest) predictions max_weight max_subtype =
     (case index_of subtypes subtype of
        Inl e \<Rightarrow> (Some e, predictions, max_weight, max_subtype)
      | Inr i \<Rightarrow>
          (case item weights i of
             Inl e \<Rightarrow> (Some e, predictions, max_weight, max_subtype)
           | Inr w \<Rightarrow>
               (let weight = np_round_float w 4;
                    predictions = loc_set predictions sample subtype (Float weight)
                in case weight of
                     NaN \<Rightarrow>
                       weights_loop weights subtypes sample rest predictions max_weight
                         max_subtype
                   | Val number \<Rightarrow>
                       if ext_less max_weight number
                       then weights_loop weights subtypes sample rest predictions number subtype
                       else weights_loop weights subtypes sample rest predictions max_weight
                              max_subtype)))"

text \<open>The function returns nothing and mutates the table: the model returns the exception,
  if any, and the table as the call leaves it. \<open>softmax\<close> is called before the first
  write.\<close>

definition update_predictions ::
  "'r table \<Rightarrow> 'r \<Rightarrow> xfloat \<Rightarrow> xfloat \<Rightarrow> xfloat list \<Rightarrow> string list
     \<Rightarrow> error option \<times> 'r table" where
  "update_predictions predictions sample tfx tfx_shifted log_likelihoods subtypes =
     (case softmax log_likelihoods of
        Inl e \<Rightarrow> (Some e, predictions)
      | Inr weights \<Rightarrow>
          (let predictions = loc_set predictions sample ''TFX'' (Float tfx);
               predictions = loc_set predictions sample ''TFX_shifted'' (Float tfx_shifted)
           in case weights_loop weights subtypes sample subtypes predictions (Fin 0)
                     ''NoSolution'' of
                (Some e, predictions, max_weight, max_subtype) \<Rightarrow> (Some e, predictions)
              | (None, predictions, max_weight, max_subtype) \<Rightarrow>
                  (None, loc_set predictions sample ''Prediction'' (Label max_subtype))))"

text \<open>The rounded weight the loop reads for each subtype in turn (through
  \<open>subtypes.index\<close>, so a label that occurs twice reads the weight of its first place).\<close>

definition rounded_weights :: "xfloat list \<Rightarrow> string list \<Rightarrow> xfloat list" where
  "rounded_weights log_likelihoods subtypes =
     (case softmax log_likelihoods of
        Inl e \<Rightarrow> []
      | Inr weights \<Rightarrow>
          map (\<lambda>subtype. case index_of subtypes subtype of
                            Inr i \<Rightarrow> np_round_float (weights ! i) 4
                          | Inl e \<Rightarrow> NaN)
            subtypes)"

section \<open>The normality filter\<close>

text \<open>
  A DataFrame is a list of named columns, in column order, each holding one cell per row;
  column names are meant to be distinct and the columns of equal length. The
  \<open>Subtype\<close> column holds the class labels, the other columns the feature values.
  \<open>scipy.stats.shapiro\<close> is a library function: the model takes the p-value it reports
  as a parameter \<open>shapiro\<close>, and answers \<open>ValueError\<close> when the data handed to it is not
  numeric. Writing the p-value table to \<open>shapiros.tsv\<close> is an effect outside the model;
  \<open>direct\<close>, the directory of that file, is kept as an argument.
\<close>

datatype cell = Num real | Str string

type_synonym frame = "(string \<times> cell list) list"

text \<open>\<open>df[name]\<close>\<close>

fun column :: "frame \<Rightarrow> string \<Rightarrow> error + cell list" where
  "column [] name = Inl KeyError"
| "column ((n, cells) # df) name = (if n = name then Inr cells else column df name)"

text \<open>\<open>Series.unique()\<close>: the values in the order in which they first appear.\<close>

fun unique :: "'a list \<Rightarrow> 'a list" where
  "unique [] = []"
| "unique (x # xs) = x # unique (filter (\<lambda>y. y \<noteq> x) xs)"

text \<open>\<open>df[mask]\<close> for a boolean mask over the rows.\<close>

definition select_rows :: "bool list \<Rightarrow> frame \<Rightarrow> frame" where
  "select_rows keep df = map (\<lambda>(n, cells). (n, map snd (filter fst (zip keep cells)))) df"

text \<open>\<open>df.drop(name, axis=1)\<close>, where the column is known to exist.\<close>

definition drop_column :: "string \<Rightarrow> frame \<Rightarrow> frame" where
  "drop_column name df = filter (\<lambda>(n, cells). n \<noteq> name) df"

text \<open>\<open>df[names]\<close> for a list of column names.\<close>

definition select_columns :: "frame \<Rightarrow> string list \<Rightarrow> error + frame" where
  "select_columns df names =
     collect (\<lambda>n. case column df n of Inl e \<Rightarrow> Inl e | Inr cells \<Rightarrow> Inr (n, cells)) names"

text \<open>The numbers of a column, as the library converts them.\<close>

fun floats :: "cell list \<Rightarrow> error + real list" where
  "floats [] = Inr []"
| "floats (Num x # cells) = (case floats cells of Inl e \<Rightarrow> Inl e | Inr xs \<Rightarrow> Inr (x # xs))"
| "floats (Str s # cells) = Inl ValueError"

text \<open>The body of the double loop: the p-value recorded for one feature in one subtype's
  partition.\<close>

definition p_value :: "(real list \<Rightarrow> real) \<Rightarrow> frame \<Rightarrow> string \<Rightarrow> error + real" where
  "p_value shapiro pheno_df roi =
     (case column pheno_df roi of
        Inl e \<Rightarrow> Inl e
      | Inr cells \<Rightarrow>
          if length cells < 3 then Inr 1
          else (case floats cells of Inl e \<Rightarrow> Inl e | Inr xs \<Rightarrow> Inr (shapiro xs)))"

text \<open>The table of one subtype: its rows, without the label column.\<close>

definition pheno_frame :: "cell list \<Rightarrow> frame \<Rightarrow> cell \<Rightarrow> frame" where
  "pheno_frame labels df phenotype =
     drop_column ''Subtype'' (select_rows (map (\<lambda>l. l = phenotype) labels) df)"

text \<open>The double loop: for each feature, the p-values of the subtypes in their order.\<close>

definition p_value_rows :: "(real list \<Rightarrow> real) \<Rightarrow> frame list \<Rightarrow> string list \<Rightarrow> error + real list list" where
  "p_value_rows shapiro pheno_dfs rois =
     collect (\<lambda>roi. collect (\<lambda>pheno_df. p_value shapiro pheno_df roi) pheno_dfs) rois"

text \<open>The second result, \<open>df_lpq\<close>: one row per retained feature, with the p-value of each
  subtype and \<open>p-adjusted\<close>, one minus their mean. The source labels the p-value columns
  by the subtype (\<open>f'{phenotype}_p-value'\<close>); the model keeps them by position, in the
  order of the subtypes.\<close>

type_synonym lpq_table = "(string \<times> real list \<times> real) list"

definition filter_lpq :: "real \<Rightarrow> string list \<Rightarrow> real list list \<Rightarrow> lpq_table" where
  "filter_lpq thresh rois p_values =
     map (\<lambda>(roi, ps). (roi, ps, 1 - sum_list ps / real (length ps)))
       (filter (\<lambda>(roi, ps). list_all (\<lambda>p. thresh < p) ps) (zip rois p_values))"

definition norm_exp ::
  "(real list \<Rightarrow> real) \<Rightarrow> frame \<Rightarrow> string \<Rightarrow> real \<Rightarrow> error + frame \<times> lpq_table" where
  "norm_exp shapiro df direct thresh =
     (case column df ''Subtype'' of
        Inl e \<Rightarrow> Inl e
      | Inr labels \<Rightarrow>
          (let phenotypes = unique labels;
               pheno_dfs = map (pheno_frame labels df) phenotypes
           in (case item pheno_dfs 0 of
                 Inl e \<Rightarrow> Inl e
               | Inr first \<Rightarrow>
                   (case p_value_rows shapiro pheno_dfs (map fst first) of
                      Inl e \<Rightarrow> Inl e
                    | Inr p_values \<Rightarrow>
                        (let df_lpq = filter_lpq thresh (map fst first) p_values;
                             common_columns = filter (\<lambda>c. c \<in> set (map fst df_lpq)) (map fst df)
                         in (case select_columns df common_columns of
                               Inl e \<Rightarrow> Inl e
                             | Inr out_df \<Rightarrow> Inr (out_df, df_lpq)))))))"

text \<open>The subtypes of a table, in the order of their first rows.\<close>

definition subtypes_of :: "frame \<Rightarrow> cell list" where
  "subtypes_of df = (case column df ''Subtype'' of Inl e \<Rightarrow> [] | Inr labels \<Rightarrow> unique labels)"

text \<open>For the statement of what is retained: the cells of a feature column in the rows of
  one subtype, read off the input table, and the p-value that stands for them.\<close>

definition partition_cells :: "frame \<Rightarrow> cell \<Rightarrow> string \<Rightarrow> error + cell list" where
  "partition_cells df phenotype feature =
     (case column df ''Subtype'' of
        Inl e \<Rightarrow> Inl e
      | Inr labels \<Rightarrow>
          (case column df feature of
             Inl e \<Rightarrow> Inl e
           | Inr cells \<Rightarrow> Inr (map snd (filter (\<lambda>(l, v). l = phenotype) (zip labels cells)))))"

definition partition_p_value ::
  "(real list \<Rightarrow> real) \<Rightarrow> frame \<Rightarrow> cell \<Rightarrow> string \<Rightarrow> error + real" where
  "partition_p_value shapiro df phenotype feature =
     (case partition_cells df phenotype feature of
        Inl e \<Rightarrow> Inl e
      | Inr cells \<Rightarrow>
          if length cells < 3 then Inr 1
          else (case floats cells of Inl e \<Rightarrow> Inl e | Inr xs \<Rightarrow> Inr (shapiro xs)))"

definition exceeds :: "real \<Rightarrow> error + real \<Rightarrow> bool" where
  "exceeds thresh r = (case r of Inl e \<Rightarrow> False | Inr p \<Rightarrow> thresh < p)"

section \<open>The greedy search for a feature subset\<close>

text \<open>
  A feature mask is a list of booleans, one per feature. \<open>greedy_maximize\<close> receives the
  objective as its argument \<open>fun\<close> (here \<open>f\<close>, which may raise), the number \<open>n\<close> of
  features and the number \<open>n_min\<close> of features of the masks it starts from. What it
  prints is not modelled.
\<close>

type_synonym mask = "bool list"

text \<open>\<open>sum(mask)\<close>: the number of features a mask selects.\<close>

definition set_bits :: "mask \<Rightarrow> nat" where
  "set_bits m = length (filter (\<lambda>b. b) m)"

text \<open>\<open>itertools.combinations(xs, k)\<close>: the \<open>k\<close>-element subsequences of \<open>xs\<close>, in
  lexicographic order of their positions.\<close>

fun combinations :: "'a list \<Rightarrow> nat \<Rightarrow> 'a list list" where
  "combinations xs 0 = [[]]"
| "combinations [] (Suc k) = []"
| "combinations (x # xs) (Suc k) = map ((#) x) (combinations xs k) @ combinations xs (Suc k)"

text \<open>\<open>mask = np.zeros(n, dtype=bool); mask[list(indices)] = 1\<close>\<close>

definition mask_of :: "nat \<Rightarrow> nat list \<Rightarrow> mask" where
  "mask_of n indices = map (\<lambda>i. i \<in> set indices) [0..<n]"

text \<open>
  \<open>best_value\<close> starts at \<open>-np.inf\<close> and is only ever assigned a score that passed
  \<open>value > best_value\<close>, which no NaN does: it is a number (\<open>ext\<close>), while the objective
  may return any float, NaN too.
\<close>

text \<open>The first loop: over the masks of \<open>n_min\<close> features that remain, from the best mask
  and its score so far.\<close>

fun exhaustive ::
  "(mask \<Rightarrow> error + xfloat) \<Rightarrow> nat \<Rightarrow> nat list list \<Rightarrow> mask \<Rightarrow> ext
     \<Rightarrow> error + mask \<times> ext" where
  "exhaustive f n [] best_mask best_value = Inr (best_mask, best_value)"
| "exhaustive f n (indices # rest) best_mask best_value =
     (case f (mask_of n indices) of
        Inl e \<Rightarrow> Inl e
      | Inr NaN \<Rightarrow> exhaustive f n rest best_mask best_value
      | Inr (Val v) \<Rightarrow>
          if ext_less best_value v then exhaustive f n rest (mask_of n indices) v
          else exhaustive f n rest best_mask best_value)"

text \<open>The \<open>for\<close> loop inside the \<open>while\<close> loop: over the positions that remain, from
  \<open>best_new_mask\<close> and \<open>best_new_value\<close> so far.\<close>

fun scan ::
  "(mask \<Rightarrow> error + xfloat) \<Rightarrow> mask \<Rightarrow> nat list \<Rightarrow> mask \<Rightarrow> ext
     \<Rightarrow> error + mask \<times> ext" where
  "scan f best_mask [] best_new_mask best_new_value = Inr (best_new_mask, best_new_value)"
| "scan f best_mask (i # rest) best_new_mask best_new_value =
     (if \<not> i < length best_mask then Inl IndexError
      else if \<not> best_mask ! i then
        (let new_mask = best_mask[i := True]
         in case f new_mask of
              Inl e \<Rightarrow> Inl e
            | Inr NaN \<Rightarrow> scan f best_mask rest best_new_mask best_new_value
            | Inr (Val new_value) \<Rightarrow>
                if ext_less best_new_value new_value
                then scan f best_mask rest new_mask new_value
                else scan f best_mask rest best_new_mask best_new_value)
      else scan f best_mask rest best_new_mask best_new_value)"

lemma ext_less_trans: "ext_less a b \<Longrightarrow> ext_less b c \<Longrightarrow> ext_less a c"
  by (cases a; cases b; cases c) auto

lemma ext_less_irrefl: "\<not> ext_less a a"
  by (cases a) auto

lemma ext_less_differs: "ext_less a b \<Longrightarrow> b \<noteq> a"
  using ext_less_irrefl by blast

text \<open>One pass of the \<open>for\<close> loop either leaves what it started from or ends with a mask
  that sets one more position of \<open>best_mask\<close> and scores above the start.\<close>

lemma scan_result:
  "scan f best_mask positions m0 v0 = Inr (m, v) \<Longrightarrow>
     (m = m0 \<and> v = v0)
     \<or> (\<exists>i\<in>set positions. i < length best_mask \<and> \<not> best_mask ! i
            \<and> m = best_mask[i := True] \<and> f m = Inr (Val v) \<and> ext_less v0 v)"
proof (induction positions arbitrary: m0 v0)
  case Nil
  then show ?case by simp
next
  case (Cons i rest)
  from Cons.prems have i: "i < length best_mask"
    by (simp split: if_splits)
  show ?case
  proof (cases "best_mask ! i")
    case True
    with Cons.prems i have "scan f best_mask rest m0 v0 = Inr (m, v)" by simp
    from Cons.IH [OF this] show ?thesis by auto
  next
    case False
    let ?new = "best_mask[i := True]"
    from Cons.prems i False obtain x where x: "f ?new = Inr x"
      by (cases "f ?new") (simp_all add: Let_def)
    show ?thesis
    proof (cases "above x v0")
      case True
      then obtain w where w: "x = Val w" "ext_less v0 w"
        by (cases x) auto
      with Cons.prems i False x have "scan f best_mask rest ?new w = Inr (m, v)"
        by (simp add: Let_def)
      from Cons.IH [OF this] show ?thesis
      proof
        assume "m = ?new \<and> v = w"
        with i False x w show ?thesis by auto
      next
        assume "\<exists>j\<in>set rest. j < length best_mask \<and> \<not> best_mask ! j
            \<and> m = best_mask[j := True] \<and> f m = Inr (Val v) \<and> ext_less w v"
        then obtain j where "j \<in> set rest" "j < length best_mask" "\<not> best_mask ! j"
            "m = best_mask[j := True]" "f m = Inr (Val v)" "ext_less w v"
          by blast
        moreover from this w(2) have "ext_less v0 v"
          using ext_less_trans by blast
        ultimately show ?thesis by auto
      qed
    next
      case no: False
      with Cons.prems i False x have "scan f best_mask rest m0 v0 = Inr (m, v)"
        by (cases x) (simp_all add: Let_def)
      from Cons.IH [OF this] show ?thesis by auto
    qed
  qed
qed

lemma set_bits_update:
  assumes "i < length m" and "\<not> m ! i"
  shows "set_bits (m[i := True]) = Suc (set_bits m)"
proof -
  have m: "m = take i m @ m ! i # drop (Suc i) m"
    using assms(1) by (simp add: id_take_nth_drop)
  have "m[i := True] = take i m @ True # drop (Suc i) m"
    using assms(1) by (simp add: upd_conv_take_nth_drop)
  then have "set_bits (m[i := True])
      = length (filter (\<lambda>b. b) (take i m)) + 1 + length (filter (\<lambda>b. b) (drop (Suc i) m))"
    by (simp add: set_bits_def)
  moreover have "set_bits m
      = length (filter (\<lambda>b. b) (take i m)) + length (filter (\<lambda>b. b) (drop (Suc i) m))"
    using assms(2) by (subst m) (simp add: set_bits_def)
  ultimately show ?thesis by simp
qed

lemma set_bits_le: "set_bits m \<le> length m"
  by (simp add: set_bits_def)

text \<open>The \<open>while\<close> loop. \<open>best_new_value == best_value\<close> compares two numbers, for
  which \<open>==\<close> is equality. Each pass that does not stop continues with a mask that has
  one more feature, which is why the loop ends.\<close>

function greedy_loop ::
  "(mask \<Rightarrow> error + xfloat) \<Rightarrow> nat \<Rightarrow> mask \<Rightarrow> ext \<Rightarrow> error + mask" where
  "greedy_loop f n best_mask best_value =
     (case scan f best_mask [0..<n] best_mask best_value of
        Inl e \<Rightarrow> Inl e
      | Inr (best_new_mask, best_new_value) \<Rightarrow>
          if best_new_value = best_value then Inr best_mask
          else greedy_loop f n best_new_mask best_new_value)"
  by pat_completeness auto
termination
proof (relation "measure (\<lambda>(f, n, best_mask, best_value). length best_mask - set_bits best_mask)")
  show "wf (measure (\<lambda>(f, n, best_mask, best_value). length best_mask - set_bits best_mask))"
    by simp
next
  fix f :: "mask \<Rightarrow> error + xfloat" and n best_mask best_value x2 m v
  assume run: "scan f best_mask [0..<n] best_mask best_value = Inr x2"
    and x2: "(m, v) = x2" and go: "v \<noteq> best_value"
  from run x2 have "scan f best_mask [0..<n] best_mask best_value = Inr (m, v)"
    by simp
  from scan_result [OF this] go obtain i where i: "i < length best_mask" "\<not> best_mask ! i"
      "m = best_mask[i := True]"
    by auto
  then have "set_bits m = Suc (set_bits best_mask)"
    by (simp add: set_bits_update)
  moreover have "set_bits m \<le> length m"
    by (rule set_bits_le)
  ultimately have "length m - set_bits m < length best_mask - set_bits best_mask"
    using i(3) by simp
  then show "((f, n, m, v), (f, n, best_mask, best_value))
      \<in> measure (\<lambda>(f, n, best_mask, best_value). length best_mask - set_bits best_mask)"
    by simp
qed

text \<open>The number of passes of the \<open>while\<close> loop: the pass that stops (or raises) counts as
  one.\<close>

function greedy_passes :: "(mask \<Rightarrow> error + xfloat) \<Rightarrow> nat \<Rightarrow> mask \<Rightarrow> ext \<Rightarrow> nat" where
  "greedy_passes f n best_mask best_value =
     (case scan f best_mask [0..<n] best_mask best_value of
        Inl e \<Rightarrow> 1
      | Inr (best_new_mask, best_new_value) \<Rightarrow>
          if best_new_value = best_value then 1
          else 1 + greedy_passes f n best_new_mask best_new_value)"
  by pat_completeness auto
termination
proof (relation "measure (\<lambda>(f, n, best_mask, best_value). length best_mask - set_bits best_mask)")
  show "wf (measure (\<lambda>(f, n, best_mask, best_value). length best_mask - set_bits best_mask))"
    by simp
next
  fix f :: "mask \<Rightarrow> error + xfloat" and n best_mask best_value x2 m v
  assume run: "scan f best_mask [0..<n] best_mask best_value = Inr x2"
    and x2: "(m, v) = x2" and go: "v \<noteq> best_value"
  from run x2 have "scan f best_mask [0..<n] best_mask best_value = Inr (m, v)"
    by simp
  from scan_result [OF this] go obtain i where i: "i < length best_mask" "\<not> best_mask ! i"
      "m = best_mask[i := True]"
    by auto
  then have "set_bits m = Suc (set_bits best_mask)"
    by (simp add: set_bits_update)
  moreover have "set_bits m \<le> length m"
    by (rule set_bits_le)
  ultimately have "length m - set_bits m < length best_mask - set_bits best_mask"
    using i(3) by simp
  then show "((f, n, m, v), (f, n, best_mask, best_value))
      \<in> measure (\<lambda>(f, n, best_mask, best_value). length best_mask - set_bits best_mask)"
    by simp
qed

definition greedy_maximize :: "(mask \<Rightarrow> error + xfloat) \<Rightarrow> nat \<Rightarrow> nat \<Rightarrow> error + mask" where
  "greedy_maximize f n n_min =
     (case exhaustive f n (combinations [0..<n] n_min) (replicate n False) NInf of
        Inl e \<Rightarrow> Inl e
      | Inr (best_mask, best_value) \<Rightarrow> greedy_loop f n best_mask best_value)"

definition greedy_maximize_passes :: "(mask \<Rightarrow> error + xfloat) \<Rightarrow> nat \<Rightarrow> nat \<Rightarrow> nat" where
  "greedy_maximize_passes f n n_min =
     (case exhaustive f n (combinations [0..<n] n_min) (replicate n False) NInf of
        Inl e \<Rightarrow> 0
      | Inr (best_mask, best_value) \<Rightarrow> greedy_passes f n best_mask best_value)"

declare greedy_loop.simps [simp del] greedy_passes.simps [simp del]

section \<open>The objective of the feature subset search\<close>

text \<open>
  \<open>objective\<close> scores a feature mask from the class matrices (one matrix per subtype, a
  row per sample), which \<open>maximal_simplex_volume\<close> computes once; here they are an
  argument. A class matrix is a list of rows.
\<close>

definition and_then :: "error + 'a \<Rightarrow> ('a \<Rightarrow> error + 'b) \<Rightarrow> error + 'b" where
  "and_then r k = (case r of Inl e \<Rightarrow> Inl e | Inr x \<Rightarrow> k x)"

text \<open>\<open>np.mean\<close> of a one-dimensional array; of an empty array it is NaN, which
  \<open>NotFinite\<close> marks.\<close>

definition np_mean :: "vec \<Rightarrow> error + real" where
  "np_mean xs = (if xs = [] then Inl NotFinite else Inr (sum_list xs / real (length xs)))"

text \<open>\<open>np.var\<close>: the mean squared deviation from the mean.\<close>

definition np_var :: "vec \<Rightarrow> error + real" where
  "np_var xs = and_then (np_mean xs) (\<lambda>m. np_mean (map (\<lambda>x. (x - m)\<^sup>2) xs))"

text \<open>Vectors of one length: difference, inner product and Euclidean norm.\<close>

definition vsub :: "vec \<Rightarrow> vec \<Rightarrow> vec" where
  "vsub a b = map2 (-) a b"

definition dotp :: "vec \<Rightarrow> vec \<Rightarrow> real" where
  "dotp a b = sum_list (map2 (*) a b)"

definition norm2 :: "vec \<Rightarrow> real" where
  "norm2 v = sqrt (sum_list (map (\<lambda>x. x\<^sup>2) v))"

text \<open>\<open>mat[:, feature_mask.astype(bool)]\<close>: the columns the mask selects; a mask whose
  length is not the number of columns raises.\<close>

definition mask_columns :: "mask \<Rightarrow> matrix \<Rightarrow> error + matrix" where
  "mask_columns feature_mask mat =
     (if list_all (\<lambda>row. length row = length feature_mask) mat
      then Inr (map (\<lambda>row. map snd (filter fst (zip feature_mask row))) mat)
      else Inl IndexError)"

text \<open>\<open>np.mean(mat, axis=0)\<close>: the mean of each column. Without rows the means are NaN,
  which \<open>NotFinite\<close> marks.\<close>

definition mean_axis0 :: "matrix \<Rightarrow> error + vec" where
  "mean_axis0 mat =
     (if mat = [] then Inl NotFinite
      else Inr (map (\<lambda>j. sum_list (map (\<lambda>row. row ! j) mat) / real (length mat))
                  [0..<length (hd mat)]))"

text \<open>
  What \<open>np.cov(mat, rowvar=False)\<close> returns: the sample covariance of the columns, with
  divisor \<open>N - 1\<close> for \<open>N\<close> rows. NumPy squeezes the result, so for a single column it is
  a zero-dimensional array (\<open>Scalar\<close>); with fewer than two rows every entry is NaN
  (\<open>NaNs\<close>); without columns it is the empty matrix.
\<close>

datatype ndarray = Scalar real | Matrix matrix | NaNs

definition np_cov :: "matrix \<Rightarrow> ndarray" where
  "np_cov mat =
     (if mat = [] then NaNs
      else if hd mat = [] then Matrix []
      else if length mat = 1 then NaNs
      else
        (let d = length (hd mat);
             avg = map (\<lambda>j. sum_list (map (\<lambda>row. row ! j) mat) / real (length mat)) [0..<d];
             c = map (\<lambda>j. map (\<lambda>k.
                   sum_list (map (\<lambda>row. (row ! j - avg ! j) * (row ! k - avg ! k)) mat)
                     / (real (length mat) - 1)) [0..<d]) [0..<d]
         in if d = 1 then Scalar (c ! 0 ! 0) else Matrix c))"

text \<open>
  \<open>np.linalg.eigvalsh\<close> is a library function, the parameter \<open>eigvalsh\<close>; it raises
  \<open>LinAlgError\<close> for an array that is not a square matrix, as a zero-dimensional one.
  \<open>is_positive_semi_definite\<close> catches that exception and no other. On a matrix of NaN
  the library either raises \<open>LinAlgError\<close> or returns NaN, and \<open>np.all(eigenvalues >= 0)\<close>
  is false for NaN: the answer is \<open>False\<close> either way.
\<close>

definition is_positive_semi_definite :: "(ndarray \<Rightarrow> error + real list) \<Rightarrow> ndarray \<Rightarrow> error + bool" where
  "is_positive_semi_definite eigvalsh matrix =
     (case matrix of
        NaNs \<Rightarrow> Inr False
      | _ \<Rightarrow>
          (case eigvalsh matrix of
             Inl e \<Rightarrow> (if e = LinAlgError then Inr False else Inl e)
           | Inr eigenvalues \<Rightarrow> Inr (list_all (\<lambda>ev. 0 \<le> ev) eigenvalues)))"

text \<open>\<open>simplex_volume_recursive\<close>; on an empty list the source recurses without end, which
  Python stops with \<open>RecursionError\<close>.\<close>

function simplex_volume_recursive :: "vec list \<Rightarrow> error + real" where
  "simplex_volume_recursive vectors =
     (if vectors = [] then Inl RecursionError
      else if length vectors = 1 then item (vectors ! 0) 0
      else
        and_then (simplex_volume_recursive (butlast vectors)) (\<lambda>base.
          (let height = norm2 (vsub (last vectors) (vectors ! 0));
               volume = base * height / real (length vectors)
           in Inr volume)))"
  by pat_completeness auto
termination
  by (relation "measure length") auto

declare simplex_volume_recursive.simps [simp del]

text \<open>\<open>scipy.spatial.distance.pdist\<close>: the distances between the rows, pair by pair.\<close>

definition pdist :: "vec list \<Rightarrow> real list" where
  "pdist vs =
     concat (map (\<lambda>i. map (\<lambda>j. norm2 (vsub (vs ! i) (vs ! j))) [Suc i..<length vs])
               [0..<length vs])"

text \<open>\<open>np.max\<close> and \<open>np.min\<close> raise on an empty array.\<close>

definition np_max :: "real list \<Rightarrow> error + real" where
  "np_max xs = (if xs = [] then Inl ValueError else Inr (Max (set xs)))"

definition np_min :: "real list \<Rightarrow> error + real" where
  "np_min xs = (if xs = [] then Inl ValueError else Inr (Min (set xs)))"

text \<open>The variance of the data along one edge: the mean, over the classes, of the variance
  of the centred rows projected on the edge.\<close>

definition edge_variance :: "matrix list \<Rightarrow> vec \<Rightarrow> error + real" where
  "edge_variance masked_mats edge =
     and_then
       (collect (\<lambda>masked_mat.
          and_then (mean_axis0 masked_mat) (\<lambda>centre.
            np_var (map (\<lambda>row. dotp (vsub row centre) edge) masked_mat)))
        masked_mats)
       np_mean"

text \<open>
  \<open>objective\<close>. The means are computed before the covariances are tested and used after;
  \<open>np.mean\<close> does not raise, and a class without rows, whose means are NaN, has a
  covariance of NaN and so never passes the test. After \<open>mask_columns\<close> every row, mean and
  edge has as many entries as the mask selects, so the arithmetic on them cannot raise for a
  mismatch of shapes. The three divisions at the end are float divisions: by zero they give
  an infinity or a NaN, with which the code goes on. \<open>10e-10\<close> is \<open>10 / 10 ^ 10\<close>.
\<close>

definition objective ::
  "(ndarray \<Rightarrow> error + real list) \<Rightarrow> matrix list \<Rightarrow> mask \<Rightarrow> error + xfloat" where
  "objective eigvalsh class_mats feature_mask =
     and_then (collect (mask_columns feature_mask) class_mats) (\<lambda>masked_mats.
       (let masked_vectors = map mean_axis0 masked_mats;
            masked_cov_mats = map np_cov masked_mats
        in and_then (collect (is_positive_semi_definite eigvalsh) masked_cov_mats) (\<lambda>psd_stati.
             if \<not> list_all (\<lambda>b. b) psd_stati then Inr (fin (10 / 10 ^ 10))
             else
               and_then (collect (\<lambda>v. v) masked_vectors) (\<lambda>masked_vectors.
                 (let edges = concat (map (\<lambda>i. replicate i
                                (vsub (masked_vectors ! i) (masked_vectors ! i)))
                              [0..<length masked_vectors])
                  in and_then (collect (edge_variance masked_mats) edges) (\<lambda>edge_variances.
                       (let k = length masked_vectors;
                            vertex_stdev_volumes = map (\<lambda>i.
                                prod_list (take (k - 1) (drop (i * (k - 1)) edge_variances)))
                              [0..<k];
                            scale_factor = sum_list vertex_stdev_volumes
                        in and_then (simplex_volume_recursive masked_vectors) (\<lambda>simplex.
                             (let volume = xdiv (fin simplex) (fin scale_factor);
                                  pairwise_distances = pdist masked_vectors
                              in and_then (np_max pairwise_distances) (\<lambda>longest.
                                 and_then (np_min pairwise_distances) (\<lambda>shortest.
                                   (let penalty = xdiv (fin longest) (fin shortest)
                                    in Inr (xdiv volume penalty)))))))))))))"

text \<open>\<open>maximal_simplex_volume\<close> calls the greedy search with this objective, the number of
  features and one less than the number of classes, and returns the columns of the table
  that the mask found selects; the model returns the mask. Without classes the number of
  features to start from is \<open>-1\<close>, which \<open>itertools.combinations\<close> refuses.\<close>

definition maximal_simplex_volume ::
  "(ndarray \<Rightarrow> error + real list) \<Rightarrow> matrix list \<Rightarrow> nat \<Rightarrow> error + mask" where
  "maximal_simplex_volume eigvalsh class_mats n_features =
     (if class_mats = [] then Inl ValueError
      else greedy_maximize (objective eigvalsh class_mats) n_features (length class_mats - 1))"

text \<open>An instance of \<open>eigvalsh\<close> for the examples: the eigenvalues of a diagonal matrix are
  its diagonal entries, in ascending order; a zero-dimensional array raises \<open>LinAlgError\<close>.
  Other arrays are not covered by this instance.\<close>

definition eigvalsh_diagonal :: "ndarray \<Rightarrow> error + real list" where
  "eigvalsh_diagonal a =
     (case a of
        Matrix m \<Rightarrow>
          if list_all (\<lambda>i. length (m ! i) = length m
                \<and> list_all (\<lambda>j. i = j \<or> m ! i ! j = 0) [0..<length m]) [0..<length m]
          then Inr (sort (map (\<lambda>i. m ! i ! i) [0..<length m]))
          else Inl ValueError
      | _ \<Rightarrow> Inl LinAlgError)"

subsection \<open>An example: two classes, two features\<close>

text \<open>Four samples per class; the classes differ in the first feature only, and the mean of
  the first class is negative there.\<close>

definition example_class_mats :: "matrix list" where
  "example_class_mats =
     [[[-3, -1], [-3, 1], [-1, -1], [-1, 1]], [[1, -1], [1, 1], [3, -1], [3, 1]]]"

section \<open>Orthogonalisation and projection\<close>

text \<open>
  \<open>gram_schmidt\<close> receives a sequence of one-dimensional arrays and \<open>transform_to_basis\<close>
  a vector and the stacked basis, a two-dimensional array read here as the list of its rows.
  Here a float is an \<open>xfloat\<close> and every operation rounds its exact result with \<open>rnd\<close>,
  the rounding of the arithmetic: the identity for exact arithmetic, \<open>fl64\<close> below for
  double precision. The inputs are floats, which \<open>rnd\<close> leaves as they are.
\<close>

type_synonym fvec = "xfloat list"

definition fl_add :: "(real \<Rightarrow> real) \<Rightarrow> xfloat \<Rightarrow> xfloat \<Rightarrow> xfloat" where
  "fl_add rnd a b = rounded rnd (xadd a b)"

definition fl_sub :: "(real \<Rightarrow> real) \<Rightarrow> xfloat \<Rightarrow> xfloat \<Rightarrow> xfloat" where
  "fl_sub rnd a b = rounded rnd (xsub a b)"

definition fl_mul :: "(real \<Rightarrow> real) \<Rightarrow> xfloat \<Rightarrow> xfloat \<Rightarrow> xfloat" where
  "fl_mul rnd a b = rounded rnd (xmul a b)"

definition fl_div :: "(real \<Rightarrow> real) \<Rightarrow> xfloat \<Rightarrow> xfloat \<Rightarrow> xfloat" where
  "fl_div rnd a b = rounded rnd (xdiv a b)"

definition fl_sqrt :: "(real \<Rightarrow> real) \<Rightarrow> xfloat \<Rightarrow> xfloat" where
  "fl_sqrt rnd a = rounded rnd (xsqrt a)"

text \<open>
  \<open>np.dot\<close> of two one-dimensional arrays raises unless they have the same length. The
  products are added from left to right, from \<open>0.0\<close>. \<open>np.linalg.norm\<close> of a
  one-dimensional array is the square root of its inner product with itself.
\<close>

definition np_dot :: "(real \<Rightarrow> real) \<Rightarrow> fvec \<Rightarrow> fvec \<Rightarrow> error + xfloat" where
  "np_dot rnd a b =
     (if length a = length b
      then Inr (foldl (\<lambda>s (x, y). fl_add rnd s (fl_mul rnd x y)) (fin 0) (zip a b))
      else Inl ValueError)"

definition np_norm :: "(real \<Rightarrow> real) \<Rightarrow> fvec \<Rightarrow> xfloat" where
  "np_norm rnd w =
     fl_sqrt rnd (foldl (\<lambda>s (x, y). fl_add rnd s (fl_mul rnd x y)) (fin 0) (zip w w))"

text \<open>
  \<open>w = v - sum(np.dot(v, b) * b for b in basis)\<close>. Python's \<open>sum\<close> starts from the
  integer \<open>0\<close>, which NumPy broadcasts; the model starts from the zero vector of the length
  of \<open>v\<close>, which is the length of every term.
\<close>

definition residual :: "(real \<Rightarrow> real) \<Rightarrow> fvec \<Rightarrow> fvec list \<Rightarrow> error + fvec" where
  "residual rnd v basis =
     and_then (collect (\<lambda>b. and_then (np_dot rnd v b) (\<lambda>c. Inr (map (fl_mul rnd c) b))) basis)
       (\<lambda>terms.
          Inr (map2 (fl_sub rnd) v
                 (foldl (map2 (fl_add rnd)) (replicate (length v) (fin 0)) terms)))"

text \<open>The loop of \<open>gram_schmidt\<close>, from the basis so far. A residual of norm zero makes
  \<open>w / np.linalg.norm(w)\<close> a vector of NaN, with which the loop goes on.\<close>

fun gram_schmidt_loop :: "(real \<Rightarrow> real) \<Rightarrow> fvec list \<Rightarrow> fvec list \<Rightarrow> error + fvec list" where
  "gram_schmidt_loop rnd basis [] = Inr basis"
| "gram_schmidt_loop rnd basis (v # rest) =
     and_then (residual rnd v basis) (\<lambda>w.
       gram_schmidt_loop rnd (basis @ [map (\<lambda>x. fl_div rnd x (np_norm rnd w)) w]) rest)"


text \<open>
  \<open>transform_to_basis\<close>. \<open>np.dot(vector, basis.T)\<close> is the list of the inner products of
  the vector with the rows of the basis, and \<open>np.dot(projected_vector, basis)\<close> the sum of
  the rows weighted by them, added up row after row. An empty basis is a one-dimensional
  empty array, with which \<open>np.dot\<close> raises for a non-empty vector (for an empty vector it
  returns a scalar, which the result type here does not hold: the model answers
  \<open>ValueError\<close> there too).
\<close>

definition transform_to_basis ::
  "(real \<Rightarrow> real) \<Rightarrow> fvec \<Rightarrow> fvec list \<Rightarrow> error + fvec \<times> fvec" where
  "transform_to_basis rnd vector basis =
     (if basis = [] then Inl ValueError
      else
        and_then (collect (np_dot rnd vector) basis) (\<lambda>projected_vector.
          (let back_projected_vector =
                 foldl (map2 (fl_add rnd)) (replicate (length vector) (fin 0))
                   (map2 (\<lambda>c b. map (fl_mul rnd c) b) projected_vector basis);
               difference_vector = map2 (fl_sub rnd) vector back_projected_vector
           in Inr (projected_vector, difference_vector))))"


text \<open>
  Linear algebra for the statement, on vectors of reals: the span of a set of vectors of
  dimension \<open>d\<close>, and linear independence of a list, no vector of which is in the span of
  the others.
\<close>

definition vadd :: "vec \<Rightarrow> vec \<Rightarrow> vec" where
  "vadd a b = map2 (+) a b"

definition zeros :: "nat \<Rightarrow> vec" where
  "zeros n = replicate n 0"



subsection \<open>Notions for the proofs: the exact orthogonalisation, sums, projection\<close>

text \<open>
  What the two functions compute on finite vectors when nothing is rounded, as long as no
  residual vanishes (\<open>NotFinite\<close> marks the residual of norm zero, with which the functions
  above go on).
\<close>

definition vdot :: "vec \<Rightarrow> vec \<Rightarrow> error + real" where
  "vdot a b = (if length a = length b then Inr (dotp a b) else Inl ValueError)"

definition exact_residual :: "vec \<Rightarrow> vec list \<Rightarrow> error + vec" where
  "exact_residual v basis =
     and_then (collect (\<lambda>b. and_then (vdot v b) (\<lambda>c. Inr (scale c b))) basis) (\<lambda>terms.
       Inr (vsub v (foldl vadd (zeros (length v)) terms)))"

fun exact_loop :: "vec list \<Rightarrow> vec list \<Rightarrow> error + vec list" where
  "exact_loop basis [] = Inr basis"
| "exact_loop basis (v # rest) =
     and_then (exact_residual v basis) (\<lambda>w.
       if norm2 w = 0 then Inl NotFinite
       else exact_loop (basis @ [map (\<lambda>x. x / norm2 w) w]) rest)"

definition exact_gram_schmidt :: "vec list \<Rightarrow> error + vec list" where
  "exact_gram_schmidt vectors = exact_loop [] vectors"





section \<open>Properties of the likelihood\<close>

lemma length_np_eye: "length (np_eye n) = n"
  by (simp add: np_eye_def)

text \<open>
  C1. \<open>calculate_log_likelihoods\<close> passes the identity matrix of dimension
  \<open>cov_healthy.shape[0]\<close> to the log-density, for every subtype; the entries of
  \<open>cov_healthy\<close> are never read. Hence replacing \<open>cov_healthy\<close> by the identity of its
  dimension changes nothing, and two calls whose covariance arguments have the same number
  of rows return the same list (or raise the same exception), whatever the log-density is.
\<close>

theorem calculate_log_likelihoods_ignores_cov:
  "calculate_log_likelihoods logpdf tfx x mu_healthy cov mu_subs subtypes
     = collect (\<lambda>subtype.
         case index_of subtypes subtype of
           Inl e \<Rightarrow> Inl e
         | Inr i \<Rightarrow>
             (case item mu_subs i of
                Inl e \<Rightarrow> Inl e
              | Inr mu_sub \<Rightarrow>
                  (case np_add (scale tfx mu_sub) (scale (1 - tfx) mu_healthy) of
                     Inl e \<Rightarrow> Inl e
                   | Inr mu_mixture \<Rightarrow> logpdf x mu_mixture (np_eye (length cov)))))
         subtypes
   \<and> (length cov = length cov' \<longrightarrow>
        calculate_log_likelihoods logpdf tfx x mu_healthy cov mu_subs subtypes
          = calculate_log_likelihoods logpdf tfx x mu_healthy cov' mu_subs subtypes)"
proof (intro conjI impI)
  show "calculate_log_likelihoods logpdf tfx x mu_healthy cov mu_subs subtypes
     = collect (\<lambda>subtype.
         case index_of subtypes subtype of
           Inl e \<Rightarrow> Inl e
         | Inr i \<Rightarrow>
             (case item mu_subs i of
                Inl e \<Rightarrow> Inl e
              | Inr mu_sub \<Rightarrow>
                  (case np_add (scale tfx mu_sub) (scale (1 - tfx) mu_healthy) of
                     Inl e \<Rightarrow> Inl e
                   | Inr mu_mixture \<Rightarrow> logpdf x mu_mixture (np_eye (length cov)))))
         subtypes"
    unfolding calculate_log_likelihoods_def subtype_log_likelihood_def Let_def by (rule refl)
next
  assume same: "length cov = length cov'"
  have "subtype_log_likelihood logpdf tfx x mu_healthy cov mu_subs subtypes
      = subtype_log_likelihood logpdf tfx x mu_healthy cov' mu_subs subtypes"
    unfolding subtype_log_likelihood_def same by (rule refl)
  then show "calculate_log_likelihoods logpdf tfx x mu_healthy cov mu_subs subtypes
          = calculate_log_likelihoods logpdf tfx x mu_healthy cov' mu_subs subtypes"
    unfolding calculate_log_likelihoods_def by simp
qed

theorem calculate_log_likelihoods_ignores_cov_witness:
  "length [[2, 1], [1, 3 :: real]] = length [[5, 0], [0, 7 :: real]]
   \<and> calculate_log_likelihoods std_normal_logpdf (1 / 2) [1, 2] [0, 0] [[2, 1], [1, 3]]
         [[2, 4]] [''A'']
     = calculate_log_likelihoods std_normal_logpdf (1 / 2) [1, 2] [0, 0] [[5, 0], [0, 7]]
         [[2, 4]] [''A'']"
proof -
  have len: "length [[2, 1], [1, 3 :: real]] = length [[5, 0], [0, 7 :: real]]"
    by simp
  have same: "calculate_log_likelihoods std_normal_logpdf (1 / 2) [1, 2] [0, 0] [[2, 1], [1, 3]]
         [[2, 4]] [''A'']
     = calculate_log_likelihoods std_normal_logpdf (1 / 2) [1, 2] [0, 0] [[5, 0], [0, 7]]
         [[2, 4]] [''A'']"
    by (rule calculate_log_likelihoods_ignores_cov [THEN conjunct2, THEN mp, OF len])
  from len same show ?thesis by (rule conjI)
qed

section \<open>Properties of the grid search\<close>

lemma tfx_grid_points: "tfx_grid = map (\<lambda>i. real i / 1000) [0..<1001]"
  by (simp add: tfx_grid_def np_arange_def)

lemma tfx_grid_bounds: "t \<in> set tfx_grid \<Longrightarrow> 0 \<le> t \<and> t \<le> 1"
  by (auto simp: tfx_grid_points)

lemma zero_in_tfx_grid: "0 \<in> set tfx_grid"
proof -
  have "real 0 / 1000 \<in> (\<lambda>i. real i / 1000) ` {0..<1001}"
    by (rule imageI) simp
  then show ?thesis by (simp add: tfx_grid_points)
qed

lemma grid_search_result:
  "grid_search lls_at ts best_tfx best_ll = Inr t \<Longrightarrow> t = best_tfx \<or> t \<in> set ts"
proof (induction ts arbitrary: best_tfx best_ll)
  case Nil
  then show ?case by simp
next
  case (Cons c ts)
  show ?case
  proof (cases "lls_at c")
    case (Inl e)
    with Cons.prems show ?thesis by simp
  next
    case (Inr lls)
    show ?thesis
    proof (cases "below (- sum_list (map exp lls)) best_ll")
      case True
      with Cons.prems Inr have "grid_search lls_at ts c (Some (- sum_list (map exp lls))) = Inr t"
        by simp
      from Cons.IH [OF this] show ?thesis by auto
    next
      case False
      with Cons.prems Inr have "grid_search lls_at ts best_tfx best_ll = Inr t"
        by simp
      from Cons.IH [OF this] show ?thesis by auto
    qed
  qed
qed

lemma grid_search_returns:
  "\<forall>c\<in>set ts. \<exists>lls. lls_at c = Inr lls \<Longrightarrow> \<exists>t. grid_search lls_at ts best_tfx best_ll = Inr t"
proof (induction ts arbitrary: best_tfx best_ll)
  case Nil
  then show ?case by simp
next
  case (Cons c ts)
  from Cons.prems obtain lls where lls: "lls_at c = Inr lls" by auto
  from Cons.prems have rest: "\<forall>c\<in>set ts. \<exists>lls. lls_at c = Inr lls" by simp
  show ?case
    using Cons.IH [OF rest] lls by (simp add: Let_def)
qed

lemma grid_search_raises:
  "grid_search lls_at ts best_tfx best_ll = Inl e \<Longrightarrow> \<exists>c\<in>set ts. lls_at c = Inl e"
proof (induction ts arbitrary: best_tfx best_ll)
  case Nil
  then show ?case by simp
next
  case (Cons c ts)
  show ?case
  proof (cases "lls_at c")
    case (Inl e')
    with Cons.prems show ?thesis by simp
  next
    case (Inr lls)
    with Cons.prems Cons.IH show ?thesis
      by (auto simp: Let_def split: if_splits)
  qed
qed

text \<open>
  C2. The candidates of \<open>optimize_tfx\<close> are the 1001 points \<open>i / 1000\<close>, \<open>i = 0, ..., 1000\<close>.
  Whatever the feature vector and the reference models are, a value that
  \<open>optimize_tfx\<close> returns is one of these points, so it lies in \<open>[0, 1]\<close>; and
  \<open>optimize_tfx\<close> does return a value whenever no candidate makes
  \<open>calculate_log_likelihoods\<close> raise (an exception of \<open>optimize_tfx\<close> is always one
  that \<open>calculate_log_likelihoods\<close> raised at a candidate).
\<close>

theorem optimize_tfx_in_grid:
  "tfx_grid = map (\<lambda>i. real i / 1000) [0..<1001]
   \<and> length tfx_grid = 1001
   \<and> (\<forall>t. optimize_tfx logpdf x mu_healthy cov mu_subs subtypes = Inr t
          \<longrightarrow> t \<in> set tfx_grid \<and> 0 \<le> t \<and> t \<le> 1)
   \<and> ((\<forall>c\<in>set tfx_grid.
          \<exists>lls. calculate_log_likelihoods logpdf c x mu_healthy cov mu_subs subtypes = Inr lls)
        \<longrightarrow> (\<exists>t. optimize_tfx logpdf x mu_healthy cov mu_subs subtypes = Inr t))
   \<and> (\<forall>e. optimize_tfx logpdf x mu_healthy cov mu_subs subtypes = Inl e
          \<longrightarrow> (\<exists>c\<in>set tfx_grid.
                 calculate_log_likelihoods logpdf c x mu_healthy cov mu_subs subtypes = Inl e))"
proof (intro conjI allI impI)
  show "tfx_grid = map (\<lambda>i. real i / 1000) [0..<1001]"
    by (rule tfx_grid_points)
  show "length tfx_grid = 1001"
    by (simp add: tfx_grid_points)
next
  fix t
  assume "optimize_tfx logpdf x mu_healthy cov mu_subs subtypes = Inr t"
  then have "t = 0 \<or> t \<in> set tfx_grid"
    unfolding optimize_tfx_def by (rule grid_search_result)
  then show "t \<in> set tfx_grid"
    using zero_in_tfx_grid by auto
  then show "0 \<le> t" and "t \<le> 1"
    using tfx_grid_bounds by auto
next
  assume "\<forall>c\<in>set tfx_grid.
          \<exists>lls. calculate_log_likelihoods logpdf c x mu_healthy cov mu_subs subtypes = Inr lls"
  then show "\<exists>t. optimize_tfx logpdf x mu_healthy cov mu_subs subtypes = Inr t"
    unfolding optimize_tfx_def by (rule grid_search_returns)
next
  fix e
  assume "optimize_tfx logpdf x mu_healthy cov mu_subs subtypes = Inl e"
  then show "\<exists>c\<in>set tfx_grid.
                 calculate_log_likelihoods logpdf c x mu_healthy cov mu_subs subtypes = Inl e"
    unfolding optimize_tfx_def by (rule grid_search_raises)
qed

lemma index_of_member: "s \<in> set xs \<Longrightarrow> \<exists>i. index_of xs s = Inr i \<and> i < length xs"
  by (induction xs) auto

lemma collect_all:
  "\<forall>x\<in>set xs. \<exists>y. f x = Inr y \<and> P y
   \<Longrightarrow> \<exists>ys. collect f xs = Inr ys \<and> length ys = length xs \<and> (\<forall>y\<in>set ys. P y)"
proof (induction xs)
  case Nil
  then show ?case by simp
next
  case (Cons x xs)
  from Cons.prems obtain y where y: "f x = Inr y" "P y" by auto
  from Cons.prems have "\<forall>x\<in>set xs. \<exists>y. f x = Inr y \<and> P y" by simp
  from Cons.IH [OF this] obtain ys
    where ys: "collect f xs = Inr ys" "length ys = length xs" "\<forall>y\<in>set ys. P y" by blast
  from y ys show ?case by simp
qed

lemma collect_const: "\<forall>x\<in>set xs. f x = Inr c \<Longrightarrow> collect f xs = Inr (replicate (length xs) c)"
  by (induction xs) auto

lemma np_add_same_length:
  "length a = length b \<Longrightarrow> np_add (scale t a) (scale u b) = Inr (map2 (+) (scale t a) (scale u b))"
  by (simp add: np_add_def broadcast2_def scale_def)

lemma mixture_at_zero:
  "length a = length b \<Longrightarrow> map2 (+) (scale 0 a) (scale (1 - 0) b) = b"
  by (induction a b rule: list_induct2) (simp_all add: scale_def)

lemma std_normal_logpdf_ok:
  assumes "length x = length m"
  shows "std_normal_logpdf x m (np_eye (length x))
           = Inr (- (real (length x) * ln (2 * pi) + sum_list (map2 (\<lambda>a b. (a - b)\<^sup>2) x m)) / 2)"
  using assms by (simp add: std_normal_logpdf_def)

lemma sum_squares_nonneg: "0 \<le> sum_list (map2 (\<lambda>a b. (a - b)\<^sup>2) x (m :: real list))"
  by (rule sum_list_nonneg) auto

lemma sum_squares_self: "sum_list (map2 (\<lambda>a b. (a - b)\<^sup>2) x (x :: real list)) = 0"
  by (induction x) simp_all

lemma sum_exp_bound:
  "\<forall>l\<in>set lls. l \<le> r0 \<Longrightarrow> sum_list (map exp lls) \<le> real (length lls) * exp (r0 :: real)"
proof (induction lls)
  case Nil
  then show ?case by simp
next
  case (Cons l lls)
  from Cons.prems have "exp l \<le> exp r0"
    by simp
  moreover from Cons have "sum_list (map exp lls) \<le> real (length lls) * exp r0"
    by simp
  ultimately have "exp l + sum_list (map exp lls) \<le> exp r0 + real (length lls) * exp r0"
    by (rule add_mono)
  then show ?case by (simp add: algebra_simps)
qed

lemma grid_search_keeps:
  "\<forall>c\<in>set ts. \<exists>lls. lls_at c = Inr lls \<and> l \<le> - sum_list (map exp lls)
   \<Longrightarrow> grid_search lls_at ts best_tfx (Some l) = Inr best_tfx"
proof (induction ts)
  case Nil
  then show ?case by simp
next
  case (Cons c ts)
  from Cons.prems obtain lls where lls: "lls_at c = Inr lls" "l \<le> - sum_list (map exp lls)"
    by auto
  from Cons.prems have "\<forall>c\<in>set ts. \<exists>lls. lls_at c = Inr lls \<and> l \<le> - sum_list (map exp lls)"
    by simp
  from Cons.IH [OF this] lls show ?case by (simp add: Let_def)
qed

lemma tfx_grid_starts_at_zero: "\<exists>rest. tfx_grid = 0 # rest"
proof -
  have "[0..<1001] = 0 # [Suc 0..<1001]"
    by (rule upt_conv_Cons) simp
  then show ?thesis by (simp add: tfx_grid_points)
qed

lemma std_normal_logpdf_peaks: "peaks_at_mean std_normal_logpdf x (np_eye (length x))"
  unfolding peaks_at_mean_def
proof (intro allI impI)
  fix m :: vec
  assume len: "length m = length x"
  let ?ra = "- (real (length x) * ln (2 * pi) + sum_list (map2 (\<lambda>a b. (a - b)\<^sup>2) x m)) / 2"
  let ?rb = "- (real (length x) * ln (2 * pi) + sum_list (map2 (\<lambda>a b. (a - b)\<^sup>2) x x)) / 2"
  have "std_normal_logpdf x m (np_eye (length x)) = Inr ?ra"
    by (rule std_normal_logpdf_ok) (simp add: len)
  moreover have "std_normal_logpdf x x (np_eye (length x)) = Inr ?rb"
    by (simp add: std_normal_logpdf_ok)
  moreover have "?ra \<le> ?rb"
    using sum_squares_nonneg [of x m] by (simp add: sum_squares_self)
  ultimately show "\<exists>r r0. std_normal_logpdf x m (np_eye (length x)) = Inr r
      \<and> std_normal_logpdf x x (np_eye (length x)) = Inr r0 \<and> r \<le> r0"
    by blast
qed

text \<open>With one mean per subtype, each of the dimension of the healthy mean, and a
  log-density that accepts every mean of that dimension, no candidate raises.\<close>

lemma calculate_log_likelihoods_bounded:
  assumes peak: "peaks_at_mean logpdf x (np_eye (length cov))"
    and r0: "logpdf x x (np_eye (length cov)) = Inr r0"
    and enough: "length subtypes \<le> length mu_subs"
    and dims: "\<forall>m\<in>set mu_subs. length m = length x"
  shows "\<exists>lls. calculate_log_likelihoods logpdf t x x cov mu_subs subtypes = Inr lls
           \<and> length lls = length subtypes \<and> (\<forall>l\<in>set lls. l \<le> r0)"
  unfolding calculate_log_likelihoods_def
proof (rule collect_all, rule ballI)
  fix s
  assume "s \<in> set subtypes"
  then have "\<exists>i. index_of subtypes s = Inr i \<and> i < length subtypes"
    by (rule index_of_member)
  then obtain i where i: "index_of subtypes s = Inr i" "i < length subtypes"
    by blast
  with enough have lt: "i < length mu_subs" by simp
  then have "mu_subs ! i \<in> set mu_subs"
    by (rule nth_mem)
  with dims have len: "length (mu_subs ! i) = length x"
    by (rule bspec)
  let ?mix = "map2 (+) (scale t (mu_subs ! i)) (scale (1 - t) x)"
  have mix: "np_add (scale t (mu_subs ! i)) (scale (1 - t) x) = Inr ?mix"
    using len by (rule np_add_same_length)
  have "length ?mix = length x"
    using len by (simp add: scale_def)
  with peak obtain r r0' where r: "logpdf x ?mix (np_eye (length cov)) = Inr r"
      "logpdf x x (np_eye (length cov)) = Inr r0'" "r \<le> r0'"
    unfolding peaks_at_mean_def by blast
  with r0 have "r \<le> r0" by simp
  with r(1) i(1) lt mix
  show "\<exists>y. subtype_log_likelihood logpdf t x x cov mu_subs subtypes s = Inr y \<and> y \<le> r0"
    by (simp add: subtype_log_likelihood_def item_def)
qed

lemma calculate_log_likelihoods_at_zero:
  assumes r0: "logpdf x x (np_eye (length cov)) = Inr r0"
    and enough: "length subtypes \<le> length mu_subs"
    and dims: "\<forall>m\<in>set mu_subs. length m = length x"
  shows "calculate_log_likelihoods logpdf 0 x x cov mu_subs subtypes
           = Inr (replicate (length subtypes) r0)"
  unfolding calculate_log_likelihoods_def
proof (rule collect_const, rule ballI)
  fix s
  assume "s \<in> set subtypes"
  then have "\<exists>i. index_of subtypes s = Inr i \<and> i < length subtypes"
    by (rule index_of_member)
  then obtain i where i: "index_of subtypes s = Inr i" "i < length subtypes"
    by blast
  with enough have lt: "i < length mu_subs" by simp
  then have "mu_subs ! i \<in> set mu_subs"
    by (rule nth_mem)
  with dims have len: "length (mu_subs ! i) = length x"
    by (rule bspec)
  have "np_add (scale 0 (mu_subs ! i)) (scale (1 - 0) x) = Inr x"
    using np_add_same_length [OF len, of 0 "1 - 0"] mixture_at_zero [OF len] by simp
  with r0 i(1) lt
  show "subtype_log_likelihood logpdf 0 x x cov mu_subs subtypes s = Inr r0"
    by (simp add: subtype_log_likelihood_def item_def)
qed

text \<open>
  C3. When the feature vector equals the healthy mean, \<open>optimize_tfx\<close> returns the first
  candidate, \<open>0\<close>: at \<open>tfx = 0\<close> every mixture mean is the feature vector itself, where
  the log-density peaks, so no later candidate has a strictly smaller negated likelihood
  sum, and the strict comparison keeps the earliest. The hypotheses say that the inputs have
  the shapes the code expects (one mean per subtype, each of the dimension of the feature
  vector) and that the log-density has its maximum at the mean.
\<close>

theorem optimize_tfx_at_healthy_mean:
  assumes "peaks_at_mean logpdf x (np_eye (length cov))"
    and "length subtypes \<le> length mu_subs"
    and "\<forall>m\<in>set mu_subs. length m = length x"
  shows "optimize_tfx logpdf x x cov mu_subs subtypes = Inr 0"
proof -
  from assms(1) obtain r0 where r0: "logpdf x x (np_eye (length cov)) = Inr r0"
    unfolding peaks_at_mean_def by blast
  let ?f = "\<lambda>t. calculate_log_likelihoods logpdf t x x cov mu_subs subtypes"
  let ?l0 = "- sum_list (map exp (replicate (length subtypes) r0))"
  obtain rest where grid: "tfx_grid = 0 # rest"
    using tfx_grid_starts_at_zero by blast
  have first: "?f 0 = Inr (replicate (length subtypes) r0)"
    using r0 assms(2,3) by (rule calculate_log_likelihoods_at_zero)
  have l0: "?l0 = - (real (length subtypes) * exp r0)"
    by (simp add: map_replicate_const sum_list_replicate)
  have later: "\<forall>c\<in>set rest. \<exists>lls. ?f c = Inr lls \<and> ?l0 \<le> - sum_list (map exp lls)"
  proof
    fix c
    assume "c \<in> set rest"
    from calculate_log_likelihoods_bounded [OF assms(1) r0 assms(2,3), of c]
    obtain lls where lls: "?f c = Inr lls" "length lls = length subtypes" "\<forall>l\<in>set lls. l \<le> r0"
      by blast
    from sum_exp_bound [OF lls(3)] lls(2) have "?l0 \<le> - sum_list (map exp lls)"
      unfolding l0 by simp
    with lls(1) show "\<exists>lls. ?f c = Inr lls \<and> ?l0 \<le> - sum_list (map exp lls)"
      by blast
  qed
  have "grid_search ?f rest 0 (Some ?l0) = Inr 0"
    using later by (rule grid_search_keeps)
  with first show ?thesis
    unfolding optimize_tfx_def grid by (simp add: Let_def)
qed

theorem optimize_tfx_at_healthy_mean_witness:
  "optimize_tfx std_normal_logpdf [3, 4] [3, 4] [[2, 1], [1, 3]] [[5, 1], [0, 9]] [''A'', ''B'']
     = Inr 0"
proof -
  have "peaks_at_mean std_normal_logpdf [3, 4] (np_eye (length [[2, 1], [1, 3 :: real]]))"
    using std_normal_logpdf_peaks [of "[3, 4]"] by simp
  moreover have "length [''A'', ''B''] \<le> length [[5, 1], [0, 9 :: real]]"
    by simp
  moreover have "\<forall>m\<in>set [[5, 1], [0, 9 :: real]]. length m = length [3, 4 :: real]"
    by simp
  ultimately show ?thesis
    by (rule optimize_tfx_at_healthy_mean)
qed

theorem optimize_tfx_in_grid_witness:
  "\<exists>t. optimize_tfx std_normal_logpdf [1, 2] [3, 4] [[2, 1], [1, 3]] [[5, 1], [0, 9]]
          [''A'', ''B''] = Inr t \<and> t \<in> set tfx_grid \<and> 0 \<le> t \<and> t \<le> 1"
proof -
  have no_raise: "\<forall>c\<in>set tfx_grid. \<exists>lls. calculate_log_likelihoods std_normal_logpdf c [1, 2]
      [3, 4] [[2, 1], [1, 3]] [[5, 1], [0, 9]] [''A'', ''B''] = Inr lls"
  proof
    fix c :: real
    show "\<exists>lls. calculate_log_likelihoods std_normal_logpdf c [1, 2]
      [3, 4] [[2, 1], [1, 3]] [[5, 1], [0, 9]] [''A'', ''B''] = Inr lls"
      by (simp add: calculate_log_likelihoods_def subtype_log_likelihood_def item_def np_add_def
        broadcast2_def scale_def std_normal_logpdf_def np_eye_def)
  qed
  note facts = optimize_tfx_in_grid [of std_normal_logpdf "[1, 2]" "[3, 4]" "[[2, 1], [1, 3]]"
      "[[5, 1], [0, 9]]" "[''A'', ''B'']"]
  from facts no_raise obtain t where t: "optimize_tfx std_normal_logpdf [1, 2] [3, 4]
      [[2, 1], [1, 3]] [[5, 1], [0, 9]] [''A'', ''B''] = Inr t"
    by blast
  with facts have "t \<in> set tfx_grid \<and> 0 \<le> t \<and> t \<le> 1"
    by blast
  with t show ?thesis by blast
qed

section \<open>Recording a prediction: properties\<close>

subsection \<open>The running maximum\<close>

lemma softmax_raises: "softmax [] = Inl ValueError"
  by (simp add: softmax_def np_amax_def)

lemma softmax_returns:
  "x \<noteq> [] \<Longrightarrow> \<exists>weights. softmax x = Inr weights \<and> length weights = length x"
  by (simp add: softmax_def np_amax_def Let_def)

text \<open>On finite log-likelihoods the weights are finite and positive: the exponentials of
  the log-likelihoods less the greatest of them, over the sum of these exponentials.\<close>

lemma foldl_xmax_fin: "foldl xmax (fin a) (map fin xs) = fin (foldl max a xs)"
  by (induction xs arbitrary: a) (simp_all add: max_def)

lemma foldl_xadd_fin: "foldl xadd (fin s) (map fin xs) = fin (s + sum_list xs)"
  by (induction xs arbitrary: s) (simp_all add: add.assoc)

lemma sum_list_exp_pos: "xs \<noteq> [] \<Longrightarrow> 0 < sum_list (map (\<lambda>x. exp (x - m)) xs)" for m :: real
proof (induction xs)
  case Nil
  then show ?case by simp
next
  case (Cons x xs)
  have "0 \<le> sum_list (map (\<lambda>x. exp (x - m)) xs)"
    by (rule sum_list_nonneg) auto
  moreover have "0 < exp (x - m)" by simp
  ultimately have "0 < exp (x - m) + sum_list (map (\<lambda>x. exp (x - m)) xs)"
    by (rule add_pos_nonneg [rotated])
  then show ?case by simp
qed

lemma softmax_finite:
  assumes "xs \<noteq> []"
  shows "softmax (map fin xs)
    = Inr (map (\<lambda>x. fin (exp (x - foldl max (hd xs) (tl xs))
                         / sum_list (map (\<lambda>y. exp (y - foldl max (hd xs) (tl xs))) xs))) xs)"
proof -
  let ?m = "foldl max (hd xs) (tl xs)"
  let ?T = "sum_list (map (\<lambda>y. exp (y - ?m)) xs)"
  from assms have amax: "np_amax (map fin xs) = Inr (fin ?m)"
    by (cases xs) (simp_all add: np_amax_def foldl_xmax_fin)
  have shifted: "map (\<lambda>xi. xexp (xsub xi (fin ?m))) (map fin xs) = map fin (map (\<lambda>y. exp (y - ?m)) xs)"
    by (simp add: xsub_def)
  have total: "foldl xadd (fin 0) (map fin (map (\<lambda>y. exp (y - ?m)) xs)) = fin ?T"
    by (simp only: foldl_xadd_fin add_0_left)
  from assms have "?T \<noteq> 0"
    using sum_list_exp_pos [of xs ?m] by simp
  then have "map (\<lambda>ei. xdiv ei (fin ?T)) (map fin (map (\<lambda>y. exp (y - ?m)) xs))
      = map (\<lambda>x. fin (exp (x - ?m) / ?T)) xs"
    by (simp add: comp_def)
  then show ?thesis
    by (simp only: softmax_def amax sum.case Let_def shifted total)
qed

lemma ext_less_asym: "ext_less a b \<Longrightarrow> \<not> ext_less b a"
  using ext_less_trans ext_less_irrefl by blast

lemma not_above_later:
  assumes "\<not> above u v0" and "v = v0 \<or> ext_less v0 v"
  shows "\<not> above u v"
proof (cases u)
  case NaN
  then show ?thesis by simp
next
  case (Val a)
  show ?thesis
  proof
    assume "above u v"
    with Val have "ext_less v a" by simp
    with assms(2) have "ext_less v0 a"
      using ext_less_trans by blast
    with assms(1) Val show False by simp
  qed
qed

text \<open>A weight is not above \<open>0\<close> when it is NaN, \<open>-inf\<close> or a real that is at most \<open>0\<close>.\<close>

lemma not_above_zero:
  "(\<not> above w (Fin 0)) = (w = NaN \<or> w = Val NInf \<or> (\<exists>r. w = fin r \<and> r \<le> 0))"
proof (cases w)
  case NaN
  then show ?thesis by simp
next
  case (Val a)
  then show ?thesis by (cases a) auto
qed

lemma weights_loop_frame:
  "weights_loop weights subtypes sample rest predictions mw ms = (err, predictions', mw', ms')
   \<Longrightarrow> (\<forall>r. r \<noteq> sample \<longrightarrow> predictions' r = predictions r)
     \<and> (\<forall>c. c \<notin> set rest \<longrightarrow> predictions' sample c = predictions sample c)"
proof (induction rest arbitrary: predictions mw ms)
  case Nil
  then show ?case by simp
next
  case (Cons s rest)
  show ?case
  proof (cases "index_of subtypes s")
    case (Inl e)
    with Cons.prems show ?thesis by simp
  next
    case (Inr i)
    note i = this
    show ?thesis
    proof (cases "item weights i")
      case (Inl e)
      with Cons.prems i show ?thesis by simp
    next
      case (Inr w)
      let ?p = "loc_set predictions sample s (Float (np_round_float w 4))"
      have step: "(\<forall>r. r \<noteq> sample \<longrightarrow> ?p r = predictions r)
          \<and> (\<forall>c. c \<noteq> s \<longrightarrow> ?p sample c = predictions sample c)"
        by (simp add: loc_set_def)
      from Cons.prems i Inr
      have "\<exists>a b. weights_loop weights subtypes sample rest ?p a b = (err, predictions', mw', ms')"
        by (cases "np_round_float w 4") (auto simp: Let_def split: if_splits)
      then obtain a b
        where "weights_loop weights subtypes sample rest ?p a b = (err, predictions', mw', ms')"
        by blast
      from Cons.IH [OF this] step show ?thesis by simp
    qed
  qed
qed

lemma weights_loop_no_error:
  "length subtypes \<le> length weights \<Longrightarrow> set rest \<subseteq> set subtypes
   \<Longrightarrow> fst (weights_loop weights subtypes sample rest predictions mw ms) = None"
proof (induction rest arbitrary: predictions mw ms)
  case Nil
  then show ?case by simp
next
  case (Cons s rest)
  from Cons.prems have "s \<in> set subtypes" by simp
  then have "\<exists>i. index_of subtypes s = Inr i \<and> i < length subtypes"
    by (rule index_of_member)
  then obtain i where i: "index_of subtypes s = Inr i" "i < length subtypes"
    by blast
  with Cons.prems have w: "item weights i = Inr (weights ! i)"
    by (simp add: item_def)
  from Cons.prems have "set rest \<subseteq> set subtypes" by simp
  note IH = Cons.IH [OF Cons.prems(1) this]
  show ?case
    using i(1) w IH by (cases "np_round_float (weights ! i) 4") (simp_all add: Let_def)
qed

text \<open>What the loop leaves in \<open>max_weight\<close> and \<open>max_subtype\<close>, from the weights \<open>ws\<close>
  it reads for the subtypes \<open>rest\<close> that remain: nothing changes when no weight is above
  the running maximum; otherwise the first subtype of greatest weight is kept.\<close>

lemma weights_loop_max:
  assumes "weights_loop weights subtypes sample rest predictions mw ms
             = (None, predictions', mw', ms')"
    and "ws = map (\<lambda>s. case index_of subtypes s of Inr i \<Rightarrow> np_round_float (weights ! i) 4
                                                   | Inl e \<Rightarrow> NaN) rest"
  shows "if \<forall>w\<in>set ws. \<not> above w mw then mw' = mw \<and> ms' = ms
         else \<exists>i<length rest. ms' = rest ! i \<and> ws ! i = Val mw' \<and> ext_less mw mw'
                \<and> (\<forall>j<length rest. \<not> above (ws ! j) mw') \<and> (\<forall>j<i. ws ! j \<noteq> Val mw')"
  using assms
proof (induction rest arbitrary: predictions mw ms ws)
  case Nil
  then show ?case by simp
next
  case (Cons s rest)
  from Cons.prems(1) obtain i where i: "index_of subtypes s = Inr i"
    by (cases "index_of subtypes s") auto
  from Cons.prems(1) i obtain w where w: "item weights i = Inr w"
    by (cases "item weights i") auto
  then have wi: "w = weights ! i"
    by (auto simp: item_def split: if_splits)
  define w0 where "w0 = np_round_float w 4"
  define ws' where "ws' = map (\<lambda>s. case index_of subtypes s of
      Inr i \<Rightarrow> np_round_float (weights ! i) 4 | Inl e \<Rightarrow> NaN) rest"
  have ws: "ws = w0 # ws'"
    using Cons.prems(2) i wi by (simp add: w0_def ws'_def)
  have len: "length ws' = length rest"
    by (simp add: ws'_def)
  let ?p = "loc_set predictions sample s (Float w0)"
  show ?case
  proof (cases "above w0 mw")
    case True
    then obtain u where u: "w0 = Val u" "ext_less mw u"
      by (cases w0) auto
    with Cons.prems(1) i w
    have run: "weights_loop weights subtypes sample rest ?p u s = (None, predictions', mw', ms')"
      by (simp add: w0_def Let_def)
    note IH = Cons.IH [OF run ws'_def]
    have some: "\<not> (\<forall>w\<in>set ws. \<not> above w mw)"
      using True by (simp add: ws)
    show ?thesis
    proof (cases "\<forall>w\<in>set ws'. \<not> above w u")
      case all: True
      with IH have res: "mw' = u" "ms' = s" by simp_all
      have le: "\<forall>j<length (s # rest). \<not> above (ws ! j) mw'"
      proof (intro allI impI)
        fix j assume "j < length (s # rest)"
        then show "\<not> above (ws ! j) mw'"
          using all len by (cases j) (simp_all add: ws u(1) res(1) ext_less_irrefl)
      qed
      have "0 < length (s # rest) \<and> ms' = (s # rest) ! 0 \<and> ws ! 0 = Val mw' \<and> ext_less mw mw'
          \<and> (\<forall>j<length (s # rest). \<not> above (ws ! j) mw') \<and> (\<forall>j<0. ws ! j \<noteq> Val mw')"
        using res u le by (simp add: ws)
      then have "\<exists>i<length (s # rest). ms' = (s # rest) ! i \<and> ws ! i = Val mw' \<and> ext_less mw mw'
          \<and> (\<forall>j<length (s # rest). \<not> above (ws ! j) mw') \<and> (\<forall>j<i. ws ! j \<noteq> Val mw')"
        by blast
      with some show ?thesis by (simp only: if_False)
    next
      case False
      with IH obtain k where k: "k < length rest" "ms' = rest ! k" "ws' ! k = Val mw'"
          "ext_less u mw'" "\<forall>j<length rest. \<not> above (ws' ! j) mw'" "\<forall>j<k. ws' ! j \<noteq> Val mw'"
        by auto
      from u(2) k(4) have up: "ext_less mw mw'"
        by (rule ext_less_trans)
      from k(4) have "\<not> ext_less mw' u" "u \<noteq> mw'"
        using ext_less_asym ext_less_irrefl by blast+
      then have first: "\<not> above w0 mw'" "w0 \<noteq> Val mw'"
        by (simp_all add: u(1))
      have le: "\<forall>j<length (s # rest). \<not> above (ws ! j) mw'"
      proof (intro allI impI)
        fix j assume "j < length (s # rest)"
        then show "\<not> above (ws ! j) mw'"
          using first(1) k(5) by (cases j) (simp_all add: ws)
      qed
      have lt: "\<forall>j<Suc k. ws ! j \<noteq> Val mw'"
      proof (intro allI impI)
        fix j assume "j < Suc k"
        then show "ws ! j \<noteq> Val mw'"
          using first(2) k(6) by (cases j) (simp_all add: ws)
      qed
      have "Suc k < length (s # rest) \<and> ms' = (s # rest) ! Suc k \<and> ws ! Suc k = Val mw'
          \<and> ext_less mw mw'"
        using k(1,2,3) up by (simp add: ws)
      with le lt
      have "\<exists>i<length (s # rest). ms' = (s # rest) ! i \<and> ws ! i = Val mw' \<and> ext_less mw mw'
          \<and> (\<forall>j<length (s # rest). \<not> above (ws ! j) mw') \<and> (\<forall>j<i. ws ! j \<noteq> Val mw')"
        by blast
      with some show ?thesis by (simp only: if_False)
    qed
  next
    case False
    with Cons.prems(1) i w
    have run: "weights_loop weights subtypes sample rest ?p mw ms = (None, predictions', mw', ms')"
      by (cases w0) (simp_all add: w0_def Let_def)
    note IH = Cons.IH [OF run ws'_def]
    show ?thesis
    proof (cases "\<forall>w\<in>set ws'. \<not> above w mw")
      case all: True
      with IH have "mw' = mw \<and> ms' = ms" by simp
      moreover have "\<forall>w\<in>set ws. \<not> above w mw"
        using all False by (simp add: ws)
      ultimately show ?thesis by simp
    next
      case some: False
      with IH obtain k where k: "k < length rest" "ms' = rest ! k" "ws' ! k = Val mw'"
          "ext_less mw mw'" "\<forall>j<length rest. \<not> above (ws' ! j) mw'" "\<forall>j<k. ws' ! j \<noteq> Val mw'"
        by auto
      from k(4) have "mw' = mw \<or> ext_less mw mw'" by simp
      with False have first: "\<not> above w0 mw'"
        by (rule not_above_later)
      have differs: "w0 \<noteq> Val mw'"
      proof
        assume "w0 = Val mw'"
        with k(4) have "above w0 mw" by simp
        with False show False by simp
      qed
      have le: "\<forall>j<length (s # rest). \<not> above (ws ! j) mw'"
      proof (intro allI impI)
        fix j assume "j < length (s # rest)"
        then show "\<not> above (ws ! j) mw'"
          using first k(5) by (cases j) (simp_all add: ws)
      qed
      have lt: "\<forall>j<Suc k. ws ! j \<noteq> Val mw'"
      proof (intro allI impI)
        fix j assume "j < Suc k"
        then show "ws ! j \<noteq> Val mw'"
          using differs k(6) by (cases j) (simp_all add: ws)
      qed
      have "Suc k < length (s # rest) \<and> ms' = (s # rest) ! Suc k \<and> ws ! Suc k = Val mw'
          \<and> ext_less mw mw'"
        using k(1,2,3,4) by (simp add: ws)
      with le lt
      have "\<exists>i<length (s # rest). ms' = (s # rest) ! i \<and> ws ! i = Val mw' \<and> ext_less mw mw'
          \<and> (\<forall>j<length (s # rest). \<not> above (ws ! j) mw') \<and> (\<forall>j<i. ws ! j \<noteq> Val mw')"
        by blast
      moreover have "\<not> (\<forall>w\<in>set ws. \<not> above w mw)"
        using some by (simp add: ws)
      ultimately show ?thesis by (simp only: if_False)
    qed
  qed
qed

lemma rounded_weights_eq:
  "softmax log_likelihoods = Inr weights \<Longrightarrow>
   rounded_weights log_likelihoods subtypes
     = map (\<lambda>s. case index_of subtypes s of Inr i \<Rightarrow> np_round_float (weights ! i) 4
                                             | Inl e \<Rightarrow> NaN) subtypes"
  by (simp add: rounded_weights_def)

lemma index_of_nth: "distinct xs \<Longrightarrow> i < length xs \<Longrightarrow> index_of xs (xs ! i) = Inr i"
proof (induction xs arbitrary: i)
  case Nil
  then show ?case by simp
next
  case (Cons x xs)
  show ?case
  proof (cases i)
    case 0
    then show ?thesis by simp
  next
    case (Suc j)
    with Cons.prems have "j < length xs" "distinct xs" "xs ! j \<noteq> x"
      by auto
    with Cons.IH Suc show ?thesis by auto
  qed
qed

text \<open>For subtypes that are distinct, as they are meant to be, the weight read for the
  subtype at a position is the weight at that position.\<close>

lemma rounded_weights_distinct:
  assumes "distinct subtypes" and "softmax log_likelihoods = Inr weights"
  shows "rounded_weights log_likelihoods subtypes
           = map (\<lambda>i. np_round_float (weights ! i) 4) [0..<length subtypes]"
proof (rule nth_equalityI)
  show "length (rounded_weights log_likelihoods subtypes)
      = length (map (\<lambda>i. np_round_float (weights ! i) 4) [0..<length subtypes])"
    using assms(2) by (simp add: rounded_weights_def)
next
  fix i
  assume "i < length (rounded_weights log_likelihoods subtypes)"
  then have i: "i < length subtypes"
    using assms(2) by (simp add: rounded_weights_def)
  with assms(1) have "index_of subtypes (subtypes ! i) = Inr i"
    by (rule index_of_nth)
  with i show "rounded_weights log_likelihoods subtypes ! i
      = map (\<lambda>i. np_round_float (weights ! i) 4) [0..<length subtypes] ! i"
    using assms(2) by (simp add: rounded_weights_def)
qed

lemma update_predictions_raises:
  "update_predictions predictions sample tfx tfx_shifted [] subtypes
     = (Some ValueError, predictions)"
  by (simp add: update_predictions_def softmax_raises)

lemma update_predictions_no_error:
  assumes "log_likelihoods \<noteq> []" and "length subtypes \<le> length log_likelihoods"
  shows "fst (update_predictions predictions sample tfx tfx_shifted log_likelihoods subtypes) = None"
proof -
  from softmax_returns [OF assms(1)] obtain weights
    where weights: "softmax log_likelihoods = Inr weights" "length weights = length log_likelihoods"
    by blast
  let ?p = "loc_set (loc_set predictions sample ''TFX'' (Float tfx)) sample ''TFX_shifted''
      (Float tfx_shifted)"
  obtain err p mw ms where run: "weights_loop weights subtypes sample subtypes
      ?p (Fin 0) ''NoSolution'' = (err, p, mw, ms)"
    by (rule prod_cases4)
  have "fst (weights_loop weights subtypes sample subtypes ?p (Fin 0) ''NoSolution'') = None"
    using assms(2) weights(2) by (intro weights_loop_no_error) simp_all
  with run have "err = None" by simp
  with run weights(1) show ?thesis
    by (simp add: update_predictions_def Let_def)
qed

lemma update_predictions_success:
  assumes "fst (update_predictions predictions sample tfx tfx_shifted log_likelihoods subtypes)
      = None"
  shows "\<exists>weights p mw ms.
      softmax log_likelihoods = Inr weights
      \<and> weights_loop weights subtypes sample subtypes
        (loc_set (loc_set predictions sample ''TFX'' (Float tfx)) sample ''TFX_shifted''
           (Float tfx_shifted)) (Fin 0) ''NoSolution'' = (None, p, mw, ms)
      \<and> snd (update_predictions predictions sample tfx tfx_shifted log_likelihoods subtypes)
          = loc_set p sample ''Prediction'' (Label ms)"
proof -
  from assms obtain weights where weights: "softmax log_likelihoods = Inr weights"
    by (cases "softmax log_likelihoods") (simp_all add: update_predictions_def)
  let ?p = "loc_set (loc_set predictions sample ''TFX'' (Float tfx)) sample ''TFX_shifted''
      (Float tfx_shifted)"
  obtain err p mw ms where run: "weights_loop weights subtypes sample subtypes
      ?p (Fin 0) ''NoSolution'' = (err, p, mw, ms)"
    by (rule prod_cases4)
  with assms weights have "err = None"
    by (cases err) (simp_all add: update_predictions_def Let_def)
  with run weights show ?thesis
    by (simp add: update_predictions_def Let_def)
qed

text \<open>
  C4. \<open>update_predictions\<close> raises before it writes anything when there is no
  log-likelihood, and completes whenever there are log-likelihoods, at least as many as
  subtypes. When it completes, the \<open>Prediction\<close> entry of the sample holds
  \<^item> \<open>NoSolution\<close> if no rounded weight is above \<open>0\<close>, the initial running maximum: each
    is at most \<open>0\<close> or fails the comparison, being NaN;
  \<^item> otherwise the first subtype whose rounded weight is greatest: its weight is a number
    above \<open>0\<close>, no weight is above it and no earlier weight equals it.
  So, \<open>NoSolution\<close> not being the name of a subtype, it is recorded exactly when no
  rounded weight is above \<open>0\<close>.
\<close>

theorem update_predictions_top_subtype:
  "(log_likelihoods = [] \<longrightarrow>
      update_predictions predictions sample tfx tfx_shifted log_likelihoods subtypes
        = (Some ValueError, predictions))
   \<and> (log_likelihoods \<noteq> [] \<and> length subtypes \<le> length log_likelihoods \<longrightarrow>
      fst (update_predictions predictions sample tfx tfx_shifted log_likelihoods subtypes) = None)
   \<and> (fst (update_predictions predictions sample tfx tfx_shifted log_likelihoods subtypes) = None
        \<longrightarrow>
        (if \<forall>w\<in>set (rounded_weights log_likelihoods subtypes). \<not> above w (Fin 0)
         then snd (update_predictions predictions sample tfx tfx_shifted log_likelihoods subtypes)
                sample ''Prediction'' = Some (Label ''NoSolution'')
         else \<exists>i<length subtypes. \<exists>number.
                snd (update_predictions predictions sample tfx tfx_shifted log_likelihoods subtypes)
                  sample ''Prediction'' = Some (Label (subtypes ! i))
                \<and> rounded_weights log_likelihoods subtypes ! i = Val number
                \<and> ext_less (Fin 0) number
                \<and> (\<forall>j<length subtypes.
                      \<not> above (rounded_weights log_likelihoods subtypes ! j) number)
                \<and> (\<forall>j<i. rounded_weights log_likelihoods subtypes ! j \<noteq> Val number))
        \<and> (''NoSolution'' \<notin> set subtypes \<longrightarrow>
             (snd (update_predictions predictions sample tfx tfx_shifted log_likelihoods subtypes)
                sample ''Prediction'' = Some (Label ''NoSolution''))
             = (\<forall>w\<in>set (rounded_weights log_likelihoods subtypes). \<not> above w (Fin 0))))"
proof (intro conjI impI)
  assume "log_likelihoods = []"
  then show "update_predictions predictions sample tfx tfx_shifted log_likelihoods subtypes
        = (Some ValueError, predictions)"
    by (simp add: update_predictions_raises)
next
  assume "log_likelihoods \<noteq> [] \<and> length subtypes \<le> length log_likelihoods"
  then show "fst (update_predictions predictions sample tfx tfx_shifted log_likelihoods subtypes)
      = None"
    by (simp add: update_predictions_no_error)
next
  let ?U = "update_predictions predictions sample tfx tfx_shifted log_likelihoods subtypes"
  let ?ws = "rounded_weights log_likelihoods subtypes"
  assume ok: "fst ?U = None"
  from update_predictions_success [OF ok] obtain weights p mw ms
    where weights: "softmax log_likelihoods = Inr weights"
      and run: "weights_loop weights subtypes sample subtypes
        (loc_set (loc_set predictions sample ''TFX'' (Float tfx)) sample ''TFX_shifted''
           (Float tfx_shifted)) (Fin 0) ''NoSolution'' = (None, p, mw, ms)"
      and out: "snd ?U = loc_set p sample ''Prediction'' (Label ms)"
    by blast
  have cell: "snd ?U sample ''Prediction'' = Some (Label ms)"
    by (simp add: out loc_set_def)
  note loop = weights_loop_max [OF run rounded_weights_eq [OF weights]]
  show branches: "if \<forall>w\<in>set ?ws. \<not> above w (Fin 0)
         then snd ?U sample ''Prediction'' = Some (Label ''NoSolution'')
         else \<exists>i<length subtypes. \<exists>number.
                snd ?U sample ''Prediction'' = Some (Label (subtypes ! i))
                \<and> ?ws ! i = Val number
                \<and> ext_less (Fin 0) number
                \<and> (\<forall>j<length subtypes. \<not> above (?ws ! j) number)
                \<and> (\<forall>j<i. ?ws ! j \<noteq> Val number)"
  proof (cases "\<forall>w\<in>set ?ws. \<not> above w (Fin 0)")
    case True
    with loop have "ms = ''NoSolution''" by simp
    with cell True show ?thesis by simp
  next
    case False
    with loop obtain i where "i < length subtypes" "ms = subtypes ! i" "?ws ! i = Val mw"
        "ext_less (Fin 0) mw" "\<forall>j<length subtypes. \<not> above (?ws ! j) mw"
        "\<forall>j<i. ?ws ! j \<noteq> Val mw"
      by auto
    with cell have "\<exists>i<length subtypes. \<exists>number.
                snd ?U sample ''Prediction'' = Some (Label (subtypes ! i))
                \<and> ?ws ! i = Val number
                \<and> ext_less (Fin 0) number
                \<and> (\<forall>j<length subtypes. \<not> above (?ws ! j) number)
                \<and> (\<forall>j<i. ?ws ! j \<noteq> Val number)"
      by auto
    with False show ?thesis by (simp only: if_False)
  qed
  assume fresh: "''NoSolution'' \<notin> set subtypes"
  show "(snd ?U sample ''Prediction'' = Some (Label ''NoSolution''))
      = (\<forall>w\<in>set ?ws. \<not> above w (Fin 0))"
  proof
    assume none: "snd ?U sample ''Prediction'' = Some (Label ''NoSolution'')"
    show "\<forall>w\<in>set ?ws. \<not> above w (Fin 0)"
    proof (rule ccontr)
      assume "\<not> (\<forall>w\<in>set ?ws. \<not> above w (Fin 0))"
      with branches obtain i where "i < length subtypes"
          "snd ?U sample ''Prediction'' = Some (Label (subtypes ! i))"
        by auto
      with none have "i < length subtypes" "subtypes ! i = ''NoSolution''" by simp_all
      then have "''NoSolution'' \<in> set subtypes"
        using nth_mem by metis
      with fresh show False by simp
    qed
  next
    assume "\<forall>w\<in>set ?ws. \<not> above w (Fin 0)"
    with branches show "snd ?U sample ''Prediction'' = Some (Label ''NoSolution'')"
      by simp
  qed
qed

text \<open>Two subtypes of equal likelihood have the weight \<open>1 / 2\<close> each, and the first is
  recorded. Two likelihoods of zero, whose logarithms are \<open>-inf\<close>, have the weight NaN
  each, and \<open>NoSolution\<close> is recorded.\<close>

lemma np_round_half: "np_round (1 / 2) 4 = 1 / 2"
  by (simp add: np_round_def rint_def)

lemma softmax_two_zeros: "softmax [fin 0, fin 0] = Inr [fin (1 / 2), fin (1 / 2)]"
  by (simp add: softmax_def np_amax_def xsub_def)

lemma softmax_two_minus_inf: "softmax [Val NInf, Val NInf] = Inr [NaN, NaN]"
  by (simp add: softmax_def np_amax_def xsub_def)

theorem update_predictions_top_subtype_witness:
  "fst (update_predictions (\<lambda>r. Map.empty) ''s1'' (fin (3 / 10)) (fin (1 / 5)) [fin 0, fin 0]
          [''A'', ''B'']) = None
   \<and> snd (update_predictions (\<lambda>r. Map.empty) ''s1'' (fin (3 / 10)) (fin (1 / 5)) [fin 0, fin 0]
          [''A'', ''B'']) ''s1'' ''Prediction'' = Some (Label ''A'')
   \<and> fst (update_predictions (\<lambda>r. Map.empty) ''s1'' (fin (3 / 10)) (fin (1 / 5))
          [Val NInf, Val NInf] [''A'', ''B'']) = None
   \<and> snd (update_predictions (\<lambda>r. Map.empty) ''s1'' (fin (3 / 10)) (fin (1 / 5))
          [Val NInf, Val NInf] [''A'', ''B'']) ''s1'' ''Prediction'' = Some (Label ''NoSolution'')
   \<and> update_predictions (\<lambda>r. Map.empty) ''s1'' (fin (3 / 10)) (fin (1 / 5)) [] [''A'', ''B'']
       = (Some ValueError, \<lambda>r. Map.empty)"
proof -
  let ?U = "update_predictions (\<lambda>r. Map.empty) ''s1'' (fin (3 / 10)) (fin (1 / 5))
      [fin 0, fin 0] [''A'', ''B'']"
  let ?V = "update_predictions (\<lambda>r. Map.empty) ''s1'' (fin (3 / 10)) (fin (1 / 5))
      [Val NInf, Val NInf] [''A'', ''B'']"
  note tie = update_predictions_top_subtype [of "[fin 0, fin 0]" "\<lambda>r. Map.empty"
      "''s1''" "fin (3 / 10)" "fin (1 / 5)" "[''A'', ''B'']"]
  note nan = update_predictions_top_subtype [of "[Val NInf, Val NInf]" "\<lambda>r. Map.empty"
      "''s1''" "fin (3 / 10)" "fin (1 / 5)" "[''A'', ''B'']"]
  note raises = update_predictions_top_subtype [of "[]" "\<lambda>r. Map.empty"
      "''s1''" "fin (3 / 10)" "fin (1 / 5)" "[''A'', ''B'']"]
  have ws: "rounded_weights [fin 0, fin 0] [''A'', ''B''] = [fin (1 / 2), fin (1 / 2)]"
    by (simp add: rounded_weights_def softmax_two_zeros np_round_float_def np_round_half)
  from tie have ok: "fst ?U = None" by simp
  note branches = tie [THEN conjunct2, THEN conjunct2, THEN mp, OF ok, THEN conjunct1]
  have "fin (1 / 2) \<in> set (rounded_weights [fin 0, fin 0] [''A'', ''B''])"
    by (simp add: ws)
  moreover have "above (fin (1 / 2)) (Fin 0)"
    by simp
  ultimately have "\<not> (\<forall>w\<in>set (rounded_weights [fin 0, fin 0] [''A'', ''B'']). \<not> above w (Fin 0))"
    by blast
  with branches have "\<exists>i<length [''A'', ''B'']. \<exists>number.
      snd ?U ''s1'' ''Prediction'' = Some (Label ([''A'', ''B''] ! i))
      \<and> rounded_weights [fin 0, fin 0] [''A'', ''B''] ! i = Val number
      \<and> ext_less (Fin 0) number
      \<and> (\<forall>j<length [''A'', ''B''].
             \<not> above (rounded_weights [fin 0, fin 0] [''A'', ''B''] ! j) number)
      \<and> (\<forall>j<i. rounded_weights [fin 0, fin 0] [''A'', ''B''] ! j \<noteq> Val number)"
    by (simp only: if_False)
  then obtain i number where i: "i < length [''A'', ''B'']"
      "snd ?U ''s1'' ''Prediction'' = Some (Label ([''A'', ''B''] ! i))"
      "rounded_weights [fin 0, fin 0] [''A'', ''B''] ! i = Val number"
      "\<forall>j<i. rounded_weights [fin 0, fin 0] [''A'', ''B''] ! j \<noteq> Val number"
    by blast
  have "i = 0"
  proof (rule ccontr)
    assume "i \<noteq> 0"
    with i(1) have one: "i = 1" by simp
    with i(3) have "number = Fin (1 / 2)"
      by (simp add: ws)
    moreover from one i(4) have "rounded_weights [fin 0, fin 0] [''A'', ''B''] ! 0 \<noteq> Val number"
      by simp
    ultimately show False by (simp add: ws)
  qed
  with i(2) have first: "snd ?U ''s1'' ''Prediction'' = Some (Label ''A'')"
    by simp
  have nans: "rounded_weights [Val NInf, Val NInf] [''A'', ''B''] = [NaN, NaN]"
    by (simp add: rounded_weights_def softmax_two_minus_inf np_round_float_def)
  from nan have ok': "fst ?V = None" by simp
  note branches' = nan [THEN conjunct2, THEN conjunct2, THEN mp, OF ok', THEN conjunct1]
  have "\<forall>w\<in>set (rounded_weights [Val NInf, Val NInf] [''A'', ''B'']). \<not> above w (Fin 0)"
    by (simp add: nans)
  with branches' have none: "snd ?V ''s1'' ''Prediction'' = Some (Label ''NoSolution'')"
    by (simp only: if_True)
  from raises have "update_predictions (\<lambda>r. Map.empty) ''s1'' (fin (3 / 10)) (fin (1 / 5)) []
      [''A'', ''B''] = (Some ValueError, \<lambda>r. Map.empty)"
    by simp
  with ok first ok' none show ?thesis by simp
qed

text \<open>
  C10. \<open>update_predictions\<close> writes only in the row of the given sample, whether it
  completes or raises: every other row of the table is as it was. In the sample's row it
  writes only the entries \<open>TFX\<close>, \<open>TFX_shifted\<close>, \<open>Prediction\<close> and those named by a
  subtype.
\<close>

theorem update_predictions_frame:
  "(\<forall>r. r \<noteq> sample \<longrightarrow>
      snd (update_predictions predictions sample tfx tfx_shifted log_likelihoods subtypes) r
        = predictions r)
   \<and> (\<forall>c. c \<notin> {''TFX'', ''TFX_shifted'', ''Prediction''} \<union> set subtypes \<longrightarrow>
      snd (update_predictions predictions sample tfx tfx_shifted log_likelihoods subtypes) sample c
        = predictions sample c)"
proof (cases "softmax log_likelihoods")
  case (Inl e)
  then show ?thesis
    by (simp add: update_predictions_def)
next
  case (Inr weights)
  let ?p = "loc_set (loc_set predictions sample ''TFX'' (Float tfx)) sample ''TFX_shifted''
      (Float tfx_shifted)"
  obtain err p mw ms where run: "weights_loop weights subtypes sample subtypes
      ?p (Fin 0) ''NoSolution'' = (err, p, mw, ms)"
    by (rule prod_cases4)
  note loop = weights_loop_frame [OF run]
  have out: "snd (update_predictions predictions sample tfx tfx_shifted log_likelihoods subtypes)
      = (case err of Some e \<Rightarrow> p | None \<Rightarrow> loc_set p sample ''Prediction'' (Label ms))"
    using run Inr by (cases err) (simp_all add: update_predictions_def Let_def)
  show ?thesis
  proof (intro conjI allI impI)
    fix r :: 'a
    assume "r \<noteq> sample"
    with loop have "p r = predictions r"
      by (simp add: loc_set_def)
    with \<open>r \<noteq> sample\<close>
    show "snd (update_predictions predictions sample tfx tfx_shifted log_likelihoods subtypes) r
        = predictions r"
      unfolding out by (cases err) (simp_all add: loc_set_def)
  next
    fix c
    assume c: "c \<notin> {''TFX'', ''TFX_shifted'', ''Prediction''} \<union> set subtypes"
    with loop have "p sample c = ?p sample c" by simp
    also from c have "\<dots> = predictions sample c"
      by (simp add: loc_set_def)
    finally have "p sample c = predictions sample c" .
    with c
    show "snd (update_predictions predictions sample tfx tfx_shifted log_likelihoods subtypes)
        sample c = predictions sample c"
      unfolding out by (cases err) (simp_all add: loc_set_def)
  qed
qed

theorem update_predictions_frame_witness:
  "''s2'' \<noteq> ''s1''
   \<and> snd (update_predictions
            (\<lambda>r. if r = ''s2'' then [''TFX'' \<mapsto> Float (fin (3 / 4))] else Map.empty)
            ''s1'' (fin (3 / 10)) (fin (1 / 5)) [fin 0, fin 0] [''A'', ''B'']) ''s2''
     = [''TFX'' \<mapsto> Float (fin (3 / 4))]"
proof -
  have ne: "''s2'' \<noteq> ''s1''" by simp
  from update_predictions_frame [THEN conjunct1, rule_format, OF ne,
      of "\<lambda>r. if r = ''s2'' then [''TFX'' \<mapsto> Float (fin (3 / 4))] else Map.empty"
         "fin (3 / 10)" "fin (1 / 5)" "[fin 0, fin 0]" "[''A'', ''B'']"]
  have "snd (update_predictions
            (\<lambda>r. if r = ''s2'' then [''TFX'' \<mapsto> Float (fin (3 / 4))] else Map.empty)
            ''s1'' (fin (3 / 10)) (fin (1 / 5)) [fin 0, fin 0] [''A'', ''B'']) ''s2''
     = [''TFX'' \<mapsto> Float (fin (3 / 4))]"
    by simp
  with ne show ?thesis by (rule conjI)
qed

section \<open>The normality filter: properties\<close>

subsection \<open>Columns of a subtype's table\<close>

lemma columns_pheno_frame:
  "map fst (pheno_frame labels df phenotype) = filter (\<lambda>n. n \<noteq> ''Subtype'') (map fst df)"
  by (induction df) (auto simp: pheno_frame_def drop_column_def select_rows_def)

lemma keep_rows_of_subtype:
  "map snd (filter fst (zip (map (\<lambda>l. l = phenotype) labels) cells))
     = map snd (filter (\<lambda>(l, v). l = phenotype) (zip labels cells))"
proof (induction labels arbitrary: cells)
  case Nil
  then show ?case by simp
next
  case (Cons l labels)
  then show ?case by (cases cells) simp_all
qed

lemma column_pheno_frame:
  "feature \<noteq> ''Subtype'' \<Longrightarrow>
   column (pheno_frame labels df phenotype) feature
     = (case column df feature of
          Inl e \<Rightarrow> Inl e
        | Inr cells \<Rightarrow> Inr (map snd (filter (\<lambda>(l, v). l = phenotype) (zip labels cells))))"
  by (induction df)
    (auto simp: pheno_frame_def drop_column_def select_rows_def keep_rows_of_subtype)

lemma p_value_pheno_frame:
  assumes "column df ''Subtype'' = Inr labels" and "feature \<noteq> ''Subtype''"
  shows "p_value shapiro (pheno_frame labels df phenotype) feature
           = partition_p_value shapiro df phenotype feature"
  using assms
  by (simp add: p_value_def partition_p_value_def partition_cells_def column_pheno_frame
      split: sum.splits)

subsection \<open>Loops that collect\<close>

lemma collect_Inr:
  "collect f xs = Inr ys \<Longrightarrow> ys = map (\<lambda>x. projr (f x)) xs \<and> (\<forall>x\<in>set xs. f x = Inr (projr (f x)))"
proof (induction xs arbitrary: ys)
  case Nil
  then show ?case by simp
next
  case (Cons x xs)
  then show ?case
    by (cases "f x"; cases "collect f xs") auto
qed

lemma column_member: "column df n = Inr cells \<Longrightarrow> (n, cells) \<in> set df"
  by (induction df) (auto split: if_splits)

lemma select_columns_Inr:
  assumes "select_columns df names = Inr out_df"
  shows "map fst out_df = names \<and> set out_df \<subseteq> set df"
proof -
  let ?f = "\<lambda>n. case column df n of Inl e \<Rightarrow> Inl e | Inr cells \<Rightarrow> Inr (n, cells)"
  from assms have out: "out_df = map (\<lambda>n. projr (?f n)) names"
      and ok: "\<forall>n\<in>set names. ?f n = Inr (projr (?f n))"
    using collect_Inr [of ?f names out_df] by (simp_all add: select_columns_def)
  have each: "fst (projr (?f n)) = n \<and> projr (?f n) \<in> set df" if "n \<in> set names" for n
  proof -
    from ok that have "?f n = Inr (projr (?f n))" by blast
    then show ?thesis
      by (cases "column df n") (auto dest: column_member)
  qed
  have "map fst out_df = names"
    unfolding out using each by (induction names) simp_all
  moreover have "set out_df \<subseteq> set df"
    unfolding out using each by auto
  ultimately show ?thesis by simp
qed

lemma names_filter_lpq:
  assumes "p_values = map g rois"
  shows "map fst (filter_lpq thresh rois p_values)
           = filter (\<lambda>roi. list_all (\<lambda>p. thresh < p) (g roi)) rois"
  unfolding filter_lpq_def assms
  by (induction rois) auto

subsection \<open>What the filter returns\<close>

lemma norm_exp_Inr:
  assumes "norm_exp shapiro df direct thresh = Inr (out_df, df_lpq)"
  shows "\<exists>labels p_values.
      column df ''Subtype'' = Inr labels
      \<and> unique labels \<noteq> []
      \<and> p_value_rows shapiro (map (pheno_frame labels df) (unique labels))
            (filter (\<lambda>n. n \<noteq> ''Subtype'') (map fst df)) = Inr p_values
      \<and> df_lpq = filter_lpq thresh (filter (\<lambda>n. n \<noteq> ''Subtype'') (map fst df)) p_values
      \<and> select_columns df (filter (\<lambda>c. c \<in> set (map fst df_lpq)) (map fst df)) = Inr out_df"
proof -
  from assms obtain labels where labels: "column df ''Subtype'' = Inr labels"
    by (cases "column df ''Subtype''") (simp_all add: norm_exp_def)
  let ?dfs = "map (pheno_frame labels df) (unique labels)"
  from assms labels obtain first where first: "item ?dfs 0 = Inr first"
    by (cases "item ?dfs 0") (simp_all add: norm_exp_def Let_def)
  then have nonempty: "unique labels \<noteq> []" and "first = ?dfs ! 0"
    by (auto simp: item_def split: if_splits)
  then have "first = pheno_frame labels df (unique labels ! 0)"
    by simp
  then have rois: "map fst first = filter (\<lambda>n. n \<noteq> ''Subtype'') (map fst df)"
    by (simp add: columns_pheno_frame)
  from assms labels first obtain p_values
    where rows: "p_value_rows shapiro ?dfs (map fst first) = Inr p_values"
    by (cases "p_value_rows shapiro ?dfs (map fst first)") (simp_all add: norm_exp_def Let_def)
  let ?lpq = "filter_lpq thresh (map fst first) p_values"
  from assms labels first rows
  have "select_columns df (filter (\<lambda>c. c \<in> set (map fst ?lpq)) (map fst df)) = Inr out_df
      \<and> df_lpq = ?lpq"
    by (cases "select_columns df (filter (\<lambda>c. c \<in> set (map fst ?lpq)) (map fst df))")
      (simp_all add: norm_exp_def Let_def)
  with labels nonempty rows show ?thesis
    unfolding rois by blast
qed

lemma p_value_rows_Inr:
  assumes "p_value_rows shapiro pheno_dfs rois = Inr p_values"
  shows "p_values = map (\<lambda>roi. map (\<lambda>pheno_df. projr (p_value shapiro pheno_df roi)) pheno_dfs) rois
         \<and> (\<forall>roi\<in>set rois. \<forall>pheno_df\<in>set pheno_dfs.
               p_value shapiro pheno_df roi = Inr (projr (p_value shapiro pheno_df roi)))"
proof -
  let ?row = "\<lambda>roi. collect (\<lambda>pheno_df. p_value shapiro pheno_df roi) pheno_dfs"
  from assms have all: "p_values = map (\<lambda>roi. projr (?row roi)) rois"
      and ok: "\<forall>roi\<in>set rois. ?row roi = Inr (projr (?row roi))"
    using collect_Inr [of ?row rois p_values] by (simp_all add: p_value_rows_def)
  have each: "projr (?row roi) = map (\<lambda>pheno_df. projr (p_value shapiro pheno_df roi)) pheno_dfs
      \<and> (\<forall>pheno_df\<in>set pheno_dfs.
            p_value shapiro pheno_df roi = Inr (projr (p_value shapiro pheno_df roi)))"
    if "roi \<in> set rois" for roi
  proof -
    from ok that have "?row roi = Inr (projr (?row roi))" by blast
    then show ?thesis by (rule collect_Inr)
  qed
  have "p_values = map (\<lambda>roi. map (\<lambda>pheno_df. projr (p_value shapiro pheno_df roi)) pheno_dfs) rois"
    unfolding all using each by simp
  with each show ?thesis by blast
qed

lemma exceeds_Inr: "r = Inr (projr r) \<Longrightarrow> exceeds thresh r = (thresh < projr r)"
  by (cases r) (simp_all add: exceeds_def)

text \<open>
  C8. When \<open>norm_exp\<close> returns, the columns of the table it returns are, in the order of
  the input, exactly the feature columns (those other than \<open>Subtype\<close>) for which the
  p-value of every subtype's partition is strictly above the threshold; the p-value of a
  partition of fewer than three rows is \<open>1\<close> and the test is not run
  (\<open>partition_p_value\<close>). Each returned column is a column of the input, unchanged.
\<close>

theorem norm_exp_retained_columns:
  assumes "norm_exp shapiro df direct thresh = Inr (out_df, df_lpq)"
  shows "map fst out_df
           = filter (\<lambda>feature. feature \<noteq> ''Subtype''
                \<and> (\<forall>phenotype\<in>set (subtypes_of df).
                      exceeds thresh (partition_p_value shapiro df phenotype feature)))
               (map fst df)
         \<and> set out_df \<subseteq> set df"
proof -
  from norm_exp_Inr [OF assms] obtain labels p_values
    where labels: "column df ''Subtype'' = Inr labels"
      and rows: "p_value_rows shapiro (map (pheno_frame labels df) (unique labels))
            (filter (\<lambda>n. n \<noteq> ''Subtype'') (map fst df)) = Inr p_values"
      and lpq: "df_lpq = filter_lpq thresh (filter (\<lambda>n. n \<noteq> ''Subtype'') (map fst df)) p_values"
      and out: "select_columns df (filter (\<lambda>c. c \<in> set (map fst df_lpq)) (map fst df)) = Inr out_df"
    by blast
  let ?rois = "filter (\<lambda>n. n \<noteq> ''Subtype'') (map fst df)"
  let ?dfs = "map (pheno_frame labels df) (unique labels)"
  let ?g = "\<lambda>roi. map (\<lambda>pheno_df. projr (p_value shapiro pheno_df roi)) ?dfs"
  note rows' = p_value_rows_Inr [OF rows]
  have subtypes: "subtypes_of df = unique labels"
    by (simp add: subtypes_of_def labels)
  have names: "map fst df_lpq = filter (\<lambda>roi. list_all (\<lambda>p. thresh < p) (?g roi)) ?rois"
    unfolding lpq using rows' by (intro names_filter_lpq) simp
  have test: "list_all (\<lambda>p. thresh < p) (?g roi)
      = (\<forall>phenotype\<in>set (subtypes_of df).
            exceeds thresh (partition_p_value shapiro df phenotype roi))"
    if "roi \<in> set ?rois" for roi
  proof -
    from that have ne: "roi \<noteq> ''Subtype''" by simp
    have "exceeds thresh (partition_p_value shapiro df phenotype roi)
        = (thresh < projr (p_value shapiro (pheno_frame labels df phenotype) roi))"
      if "phenotype \<in> set (unique labels)" for phenotype
    proof -
      from that have "pheno_frame labels df phenotype \<in> set ?dfs" by simp
      with rows' \<open>roi \<in> set ?rois\<close>
      have "p_value shapiro (pheno_frame labels df phenotype) roi
          = Inr (projr (p_value shapiro (pheno_frame labels df phenotype) roi))"
        by blast
      then show ?thesis
        using exceeds_Inr p_value_pheno_frame [OF labels ne] by metis
    qed
    then show ?thesis
      by (simp add: list_all_iff subtypes)
  qed
  have "filter (\<lambda>c. c \<in> set (map fst df_lpq)) (map fst df)
      = filter (\<lambda>feature. feature \<noteq> ''Subtype''
                \<and> (\<forall>phenotype\<in>set (subtypes_of df).
                      exceeds thresh (partition_p_value shapiro df phenotype feature)))
               (map fst df)"
  proof (rule filter_cong [OF refl])
    fix c
    assume "c \<in> set (map fst df)"
    then show "(c \<in> set (map fst df_lpq))
        = (c \<noteq> ''Subtype'' \<and> (\<forall>phenotype\<in>set (subtypes_of df).
              exceeds thresh (partition_p_value shapiro df phenotype c)))"
      unfolding names using test [of c] by auto
  qed
  with select_columns_Inr [OF out] show ?thesis by simp
qed

text \<open>
  C9. The columns of the table that \<open>norm_exp\<close> returns are the columns of the input that
  are in the index of the p-value table, and \<open>Subtype\<close> is not among them: the index was
  taken from a subtype's table, from which the label column had been dropped.
\<close>

theorem norm_exp_drops_labels:
  assumes "norm_exp shapiro df direct thresh = Inr (out_df, df_lpq)"
  shows "map fst out_df = filter (\<lambda>c. c \<in> set (map fst df_lpq)) (map fst df)
         \<and> ''Subtype'' \<notin> set (map fst df_lpq)
         \<and> ''Subtype'' \<notin> set (map fst out_df)"
proof -
  from norm_exp_Inr [OF assms] obtain labels p_values
    where lpq: "df_lpq = filter_lpq thresh (filter (\<lambda>n. n \<noteq> ''Subtype'') (map fst df)) p_values"
      and out: "select_columns df (filter (\<lambda>c. c \<in> set (map fst df_lpq)) (map fst df)) = Inr out_df"
    by blast
  have "set (map fst (filter_lpq thresh rois p_values)) \<subseteq> set rois" for rois
    by (auto simp: filter_lpq_def dest: set_zip_leftD)
  then have index: "''Subtype'' \<notin> set (map fst df_lpq)"
    unfolding lpq by fastforce
  from select_columns_Inr [OF out]
  have columns: "map fst out_df = filter (\<lambda>c. c \<in> set (map fst df_lpq)) (map fst df)"
    by simp
  with index show ?thesis by simp
qed

lemma norm_exp_example:
  "norm_exp (\<lambda>xs. if hd xs < 1 then 1 / 100 else 1 / 2)
     [(''f1'', [Num 2, Num 2, Num 3, Num 4, Num 5]),
      (''Subtype'', [Str ''A'', Str ''A'', Str ''A'', Str ''B'', Str ''B'']),
      (''f2'', [Num 0, Num 2, Num 3, Num 4, Num 5])]
     ''out/'' (5 / 100)
   = Inr ([(''f1'', [Num 2, Num 2, Num 3, Num 4, Num 5])], [(''f1'', [1 / 2, 1], 1 / 4)])"
  by (simp add: norm_exp_def pheno_frame_def drop_column_def select_rows_def item_def
      p_value_rows_def p_value_def filter_lpq_def select_columns_def Let_def)

theorem norm_exp_retained_columns_witness:
  "norm_exp (\<lambda>xs. if hd xs < 1 then 1 / 100 else 1 / 2)
     [(''f1'', [Num 2, Num 2, Num 3, Num 4, Num 5]),
      (''Subtype'', [Str ''A'', Str ''A'', Str ''A'', Str ''B'', Str ''B'']),
      (''f2'', [Num 0, Num 2, Num 3, Num 4, Num 5])]
     ''out/'' (5 / 100)
   = Inr ([(''f1'', [Num 2, Num 2, Num 3, Num 4, Num 5])], [(''f1'', [1 / 2, 1], 1 / 4)])
   \<and> [''f1'']
     = filter (\<lambda>feature. feature \<noteq> ''Subtype''
          \<and> (\<forall>phenotype\<in>set (subtypes_of
                  [(''f1'', [Num 2, Num 2, Num 3, Num 4, Num 5]),
                   (''Subtype'', [Str ''A'', Str ''A'', Str ''A'', Str ''B'', Str ''B'']),
                   (''f2'', [Num 0, Num 2, Num 3, Num 4, Num 5])]).
                exceeds (5 / 100)
                  (partition_p_value (\<lambda>xs. if hd xs < 1 then 1 / 100 else 1 / 2)
                     [(''f1'', [Num 2, Num 2, Num 3, Num 4, Num 5]),
                      (''Subtype'', [Str ''A'', Str ''A'', Str ''A'', Str ''B'', Str ''B'']),
                      (''f2'', [Num 0, Num 2, Num 3, Num 4, Num 5])]
                     phenotype feature)))
         [''f1'', ''Subtype'', ''f2'']"
  using norm_exp_retained_columns [OF norm_exp_example] norm_exp_example by simp

theorem norm_exp_drops_labels_witness:
  "norm_exp (\<lambda>xs. if hd xs < 1 then 1 / 100 else 1 / 2)
     [(''f1'', [Num 2, Num 2, Num 3, Num 4, Num 5]),
      (''Subtype'', [Str ''A'', Str ''A'', Str ''A'', Str ''B'', Str ''B'']),
      (''f2'', [Num 0, Num 2, Num 3, Num 4, Num 5])]
     ''out/'' (5 / 100)
   = Inr ([(''f1'', [Num 2, Num 2, Num 3, Num 4, Num 5])], [(''f1'', [1 / 2, 1], 1 / 4)])
   \<and> ''Subtype'' \<notin> set (map fst [(''f1'', [Num 2, Num 2, Num 3, Num 4, Num 5])])"
  using norm_exp_drops_labels [OF norm_exp_example] norm_exp_example by blast

section \<open>The greedy search for a feature subset: properties\<close>

subsection \<open>The masks the search starts from\<close>

lemma combinations_member:
  "c \<in> set (combinations xs k) \<Longrightarrow> length c = k \<and> set c \<subseteq> set xs \<and> (distinct xs \<longrightarrow> distinct c)"
proof (induction xs k arbitrary: c rule: combinations.induct)
  case (1 xs)
  then show ?case by simp
next
  case (2 k)
  then show ?case by simp
next
  case (3 x xs k)
  from "3.prems" consider c' where "c = x # c'" "c' \<in> set (combinations xs k)"
    | "c \<in> set (combinations xs (Suc k))"
    by auto
  then show ?case
  proof cases
    case 1
    with "3.IH"(1) [of c'] show ?thesis by auto
  next
    case 2
    with "3.IH"(2) [of c] show ?thesis by auto
  qed
qed

lemma combinations_nonempty: "k \<le> length xs \<Longrightarrow> combinations xs k \<noteq> []"
  by (induction xs k rule: combinations.induct) auto

lemma combinations_empty: "length xs < k \<Longrightarrow> combinations xs k = []"
  by (induction xs k rule: combinations.induct) auto

lemma length_mask_of: "length (mask_of n indices) = n"
  by (simp add: mask_of_def)

lemma set_bits_mask_of:
  assumes "distinct indices" and "set indices \<subseteq> {0..<n}"
  shows "set_bits (mask_of n indices) = length indices"
proof -
  have "set_bits (mask_of n indices) = length (filter (\<lambda>i. i \<in> set indices) [0..<n])"
    by (simp add: set_bits_def mask_of_def filter_map comp_def)
  also have "\<dots> = card ({i. i \<in> set indices} \<inter> set [0..<n])"
    by (rule distinct_length_filter) simp
  also have "{i. i \<in> set indices} \<inter> set [0..<n] = set indices"
    using assms(2) by auto
  also have "card (set indices) = length indices"
    using assms(1) by (rule distinct_card)
  finally show ?thesis .
qed

lemma set_bits_replicate_False: "set_bits (replicate n False) = 0"
  by (simp add: set_bits_def)

text \<open>The first loop ends with what it started from or with the mask of one of the
  combinations, whose score is then above the score it started from; no combination scores
  above what it ends with.\<close>

lemma exhaustive_result:
  "exhaustive f n combos m0 v0 = Inr (m, v) \<Longrightarrow>
     (m = m0 \<and> v = v0)
     \<or> (\<exists>c\<in>set combos. m = mask_of n c \<and> f m = Inr (Val v) \<and> ext_less v0 v)"
proof (induction combos arbitrary: m0 v0)
  case Nil
  then show ?case by simp
next
  case (Cons c combos)
  from Cons.prems obtain x where x: "f (mask_of n c) = Inr x"
    by (cases "f (mask_of n c)") simp_all
  show ?case
  proof (cases "above x v0")
    case True
    then obtain w where w: "x = Val w" "ext_less v0 w"
      by (cases x) auto
    with Cons.prems x have "exhaustive f n combos (mask_of n c) w = Inr (m, v)"
      by simp
    from Cons.IH [OF this] show ?thesis
    proof
      assume "m = mask_of n c \<and> v = w"
      with x w show ?thesis by auto
    next
      assume "\<exists>c'\<in>set combos. m = mask_of n c' \<and> f m = Inr (Val v) \<and> ext_less w v"
      then obtain c' where "c' \<in> set combos" "m = mask_of n c'" "f m = Inr (Val v)"
          "ext_less w v"
        by blast
      moreover from this w(2) have "ext_less v0 v"
        using ext_less_trans by blast
      ultimately show ?thesis by auto
    qed
  next
    case False
    with Cons.prems x have "exhaustive f n combos m0 v0 = Inr (m, v)"
      by (cases x) simp_all
    from Cons.IH [OF this] show ?thesis by auto
  qed
qed

lemma exhaustive_best:
  "exhaustive f n combos m0 v0 = Inr (m, v) \<Longrightarrow>
     \<forall>c\<in>set combos. \<exists>x. f (mask_of n c) = Inr x \<and> \<not> above x v"
proof (induction combos arbitrary: m0 v0)
  case Nil
  then show ?case by simp
next
  case (Cons c combos)
  from Cons.prems obtain x where x: "f (mask_of n c) = Inr x"
    by (cases "f (mask_of n c)") simp_all
  show ?case
  proof (cases "above x v0")
    case True
    then obtain w where w: "x = Val w" "ext_less v0 w"
      by (cases x) auto
    with Cons.prems x have run: "exhaustive f n combos (mask_of n c) w = Inr (m, v)"
      by simp
    from exhaustive_result [OF run] have "v = w \<or> ext_less w v"
      by auto
    moreover have "\<not> above x w"
      using w(1) by (simp add: ext_less_irrefl)
    ultimately have "\<not> above x v"
      by (rule not_above_later [rotated])
    with x Cons.IH [OF run] show ?thesis by simp
  next
    case False
    with Cons.prems x have run: "exhaustive f n combos m0 v0 = Inr (m, v)"
      by (cases x) simp_all
    from exhaustive_result [OF run] have "v = v0 \<or> ext_less v0 v"
      by auto
    with False have "\<not> above x v"
      by (rule not_above_later)
    with x Cons.IH [OF run] show ?thesis by simp
  qed
qed

text \<open>From the mask without features and the score \<open>-inf\<close>, the first loop ends with a
  mask of \<open>n_min\<close> features if one of them scores above \<open>-inf\<close>, and with what it started
  from otherwise: if every score is \<open>-inf\<close> or NaN, or if there is no such mask.\<close>

lemma exhaustive_start:
  assumes "exhaustive f n (combinations [0..<n] n_min) (replicate n False) NInf = Inr (start, v0)"
  shows "length start = n
     \<and> (if \<exists>c\<in>set (combinations [0..<n] n_min). \<exists>x. f (mask_of n c) = Inr x \<and> above x NInf
        then set_bits start = n_min else start = replicate n False)"
proof (cases "\<exists>c\<in>set (combinations [0..<n] n_min). \<exists>x. f (mask_of n c) = Inr x \<and> above x NInf")
  case True
  then obtain c x where c: "c \<in> set (combinations [0..<n] n_min)" "f (mask_of n c) = Inr x"
      "above x NInf"
    by blast
  from exhaustive_best [OF assms] c(1,2) have "\<not> above x v0"
    by auto
  with c(3) have "v0 \<noteq> NInf"
    by auto
  with exhaustive_result [OF assms]
  obtain c' where c': "c' \<in> set (combinations [0..<n] n_min)" "start = mask_of n c'"
    by auto
  from combinations_member [OF c'(1)]
  have "length c' = n_min" "set c' \<subseteq> {0..<n}" "distinct c'"
    by simp_all
  with c'(2) have "length start = n \<and> set_bits start = n_min"
    by (simp add: length_mask_of set_bits_mask_of)
  with True show ?thesis by simp
next
  case False
  have "start = replicate n False"
  proof (rule ccontr)
    assume "start \<noteq> replicate n False"
    with exhaustive_result [OF assms]
    obtain c where "c \<in> set (combinations [0..<n] n_min)" "f (mask_of n c) = Inr (Val v0)"
        "ext_less NInf v0"
      by auto
    then have "\<exists>c\<in>set (combinations [0..<n] n_min). \<exists>x. f (mask_of n c) = Inr x \<and> above x NInf"
      by (intro bexI [of _ c] exI [of _ "Val v0"]) simp_all
    with False show False by simp
  qed
  then have "length start = n \<and> start = replicate n False"
    by simp
  with False show ?thesis by (simp only: if_False length_replicate simp_thms)
qed

subsection \<open>One pass of the greedy loop\<close>

text \<open>No candidate of the pass scores above what the pass ends with.\<close>

lemma scan_best:
  "scan f best_mask positions m0 v0 = Inr (m, v) \<Longrightarrow>
     \<forall>j\<in>set positions. \<not> best_mask ! j \<longrightarrow>
        (\<exists>u. f (best_mask[j := True]) = Inr u \<and> \<not> above u v)"
proof (induction positions arbitrary: m0 v0)
  case Nil
  then show ?case by simp
next
  case (Cons i rest)
  from Cons.prems have i: "i < length best_mask"
    by (simp split: if_splits)
  show ?case
  proof (cases "best_mask ! i")
    case True
    with Cons.prems i have "scan f best_mask rest m0 v0 = Inr (m, v)" by simp
    from Cons.IH [OF this] True show ?thesis by simp
  next
    case False
    let ?new = "best_mask[i := True]"
    from Cons.prems i False obtain x where x: "f ?new = Inr x"
      by (cases "f ?new") (simp_all add: Let_def)
    show ?thesis
    proof (cases "above x v0")
      case True
      then obtain w where w: "x = Val w" "ext_less v0 w"
        by (cases x) auto
      with Cons.prems i False x have run: "scan f best_mask rest ?new w = Inr (m, v)"
        by (simp add: Let_def)
      from scan_result [OF run] have "v = w \<or> ext_less w v"
        by auto
      moreover have "\<not> above x w"
        using w(1) by (simp add: ext_less_irrefl)
      ultimately have "\<not> above x v"
        by (rule not_above_later [rotated])
      with x Cons.IH [OF run] show ?thesis by simp
    next
      case no: False
      with Cons.prems i False x have run: "scan f best_mask rest m0 v0 = Inr (m, v)"
        by (cases x) (simp_all add: Let_def)
      from scan_result [OF run] have "v = v0 \<or> ext_less v0 v"
        by auto
      with no have "\<not> above x v"
        by (rule not_above_later)
      with x Cons.IH [OF run] show ?thesis by simp
    qed
  qed
qed

lemma greedy_pass:
  assumes "scan f best_mask [0..<n] best_mask best_value = Inr (m, v)"
  shows "(m = best_mask \<and> v = best_value)
     \<or> (\<exists>i<n. i < length best_mask \<and> \<not> best_mask ! i \<and> m = best_mask[i := True]
           \<and> f m = Inr (Val v) \<and> ext_less best_value v
           \<and> (\<forall>j<n. \<not> best_mask ! j \<longrightarrow>
                 (\<exists>u. f (best_mask[j := True]) = Inr u \<and> \<not> above u v)))"
proof -
  have best: "\<forall>j<n. \<not> best_mask ! j \<longrightarrow> (\<exists>u. f (best_mask[j := True]) = Inr u \<and> \<not> above u v)"
    using scan_best [OF assms] by simp
  from scan_result [OF assms] show ?thesis
  proof
    assume "m = best_mask \<and> v = best_value"
    then show ?thesis by simp
  next
    assume "\<exists>i\<in>set [0..<n]. i < length best_mask \<and> \<not> best_mask ! i
        \<and> m = best_mask[i := True] \<and> f m = Inr (Val v) \<and> ext_less best_value v"
    then obtain i where "i < n" "i < length best_mask" "\<not> best_mask ! i"
        "m = best_mask[i := True]" "f m = Inr (Val v)" "ext_less best_value v"
      by auto
    with best show ?thesis by blast
  qed
qed

subsection \<open>The loop as a whole\<close>

lemma greedy_passes_bound:
  "greedy_passes f n best_mask best_value \<le> length best_mask - set_bits best_mask + 1"
proof (induction f n best_mask best_value rule: greedy_passes.induct)
  case (1 f n best_mask best_value)
  show ?case
  proof (cases "scan f best_mask [0..<n] best_mask best_value")
    case (Inl e)
    then show ?thesis
      by (subst greedy_passes.simps) simp
  next
    case (Inr x2)
    obtain m v where x2: "x2 = (m, v)" by (cases x2)
    show ?thesis
    proof (cases "v = best_value")
      case True
      with Inr x2 show ?thesis
        by (subst greedy_passes.simps) simp
    next
      case False
      from Inr x2 have run: "scan f best_mask [0..<n] best_mask best_value = Inr (m, v)"
        by simp
      from scan_result [OF run] False obtain i where i: "i < length best_mask"
          "\<not> best_mask ! i" "m = best_mask[i := True]"
        by auto
      then have bits: "set_bits m = Suc (set_bits best_mask)" and len: "length m = length best_mask"
        by (simp_all add: set_bits_update)
      have "set_bits m \<le> length m" by (rule set_bits_le)
      with bits len have room: "Suc (set_bits best_mask) \<le> length best_mask" by simp
      from "1.IH" [OF Inr x2 [symmetric] False]
      have "greedy_passes f n m v \<le> length m - set_bits m + 1" .
      with bits len room
      have "1 + greedy_passes f n m v \<le> length best_mask - set_bits best_mask + 1"
        by simp
      moreover have "greedy_passes f n best_mask best_value = 1 + greedy_passes f n m v"
        using Inr x2 False by (subst greedy_passes.simps) simp
      ultimately show ?thesis by simp
    qed
  qed
qed

lemma greedy_loop_grows:
  "greedy_loop f n best_mask best_value = Inr result \<Longrightarrow>
     length result = length best_mask
     \<and> (\<forall>i<length best_mask. best_mask ! i \<longrightarrow> result ! i)
     \<and> set_bits result + 1 = set_bits best_mask + greedy_passes f n best_mask best_value"
proof (induction f n best_mask best_value rule: greedy_loop.induct)
  case (1 f n best_mask best_value)
  from "1.prems" obtain x2 where Inr: "scan f best_mask [0..<n] best_mask best_value = Inr x2"
    by (subst (asm) greedy_loop.simps) (auto split: sum.splits)
  obtain m v where x2: "x2 = (m, v)" by (cases x2)
  show ?case
  proof (cases "v = best_value")
    case True
    with Inr x2 "1.prems" have "result = best_mask"
      by (subst (asm) greedy_loop.simps) simp
    moreover have "greedy_passes f n best_mask best_value = 1"
      using Inr x2 True by (subst greedy_passes.simps) simp
    ultimately show ?thesis by simp
  next
    case False
    from Inr x2 have run: "scan f best_mask [0..<n] best_mask best_value = Inr (m, v)"
      by simp
    from scan_result [OF run] False obtain i where i: "i < length best_mask"
        "\<not> best_mask ! i" "m = best_mask[i := True]"
      by auto
    then have bits: "set_bits m = Suc (set_bits best_mask)" and len: "length m = length best_mask"
      by (simp_all add: set_bits_update)
    from Inr x2 False "1.prems" have "greedy_loop f n m v = Inr result"
      by (subst (asm) greedy_loop.simps) simp
    from "1.IH" [OF Inr x2 [symmetric] False this]
    have IH: "length result = length m" "\<forall>i<length m. m ! i \<longrightarrow> result ! i"
        "set_bits result + 1 = set_bits m + greedy_passes f n m v"
      by simp_all
    have passes: "greedy_passes f n best_mask best_value = 1 + greedy_passes f n m v"
      using Inr x2 False by (subst greedy_passes.simps) simp
    have "\<forall>j<length best_mask. best_mask ! j \<longrightarrow> result ! j"
    proof (intro allI impI)
      fix j
      assume j: "j < length best_mask" "best_mask ! j"
      then have "m ! j"
        unfolding i(3) by (cases "j = i") simp_all
      with IH(2) j(1) len show "result ! j" by simp
    qed
    with IH(1,3) len bits passes show ?thesis by simp
  qed
qed

lemma greedy_from_start:
  assumes run: "exhaustive f n (combinations [0..<n] n_min) (replicate n False) NInf
      = Inr (start, v0)"
  shows "length start = n
        \<and> (if \<exists>c\<in>set (combinations [0..<n] n_min). \<exists>x. f (mask_of n c) = Inr x \<and> above x NInf
           then set_bits start = n_min else start = replicate n False)
        \<and> greedy_maximize_passes f n n_min \<le> n - set_bits start + 1
        \<and> (\<forall>result. greedy_maximize f n n_min = Inr result \<longrightarrow>
              length result = n
              \<and> (\<forall>i<n. start ! i \<longrightarrow> result ! i)
              \<and> set_bits result + 1 = set_bits start + greedy_maximize_passes f n n_min)"
proof -
  note start = exhaustive_start [OF run]
  from start have len: "length start = n" by simp
  have passes: "greedy_maximize_passes f n n_min = greedy_passes f n start v0"
    using run by (simp add: greedy_maximize_passes_def)
  have "greedy_passes f n start v0 \<le> length start - set_bits start + 1"
    by (rule greedy_passes_bound)
  with len passes have bound: "greedy_maximize_passes f n n_min \<le> n - set_bits start + 1"
    by simp
  have grows: "\<forall>result. greedy_maximize f n n_min = Inr result \<longrightarrow>
              length result = n
              \<and> (\<forall>i<n. start ! i \<longrightarrow> result ! i)
              \<and> set_bits result + 1 = set_bits start + greedy_maximize_passes f n n_min"
  proof (intro allI impI)
    fix result
    assume "greedy_maximize f n n_min = Inr result"
    with run have "greedy_loop f n start v0 = Inr result"
      by (simp add: greedy_maximize_def)
    from greedy_loop_grows [OF this] len passes
    show "length result = n
              \<and> (\<forall>i<n. start ! i \<longrightarrow> result ! i)
              \<and> set_bits result + 1 = set_bits start + greedy_maximize_passes f n n_min"
      by simp
  qed
  from start bound grows show ?thesis
    by (intro conjI) simp_all
qed

lemma greedy_maximize_passes_le: "greedy_maximize_passes f n n_min \<le> n + 1"
proof (cases "exhaustive f n (combinations [0..<n] n_min) (replicate n False) NInf")
  case (Inl e)
  then show ?thesis by (simp add: greedy_maximize_passes_def)
next
  case (Inr x2)
  obtain start v0 where x2: "x2 = (start, v0)" by (cases x2)
  from Inr x2 exhaustive_start [of f n n_min start v0]
  have "length start = n" by simp
  moreover have "greedy_passes f n start v0 \<le> length start - set_bits start + 1"
    by (rule greedy_passes_bound)
  ultimately show ?thesis
    using Inr x2 by (simp add: greedy_maximize_passes_def)
qed

text \<open>
  C6. The greedy phase of \<open>greedy_maximize\<close> ends. It starts from the mask \<open>start\<close> that
  the exhaustive phase found: a mask of exactly \<open>n_min\<close> features if one of the masks of
  \<open>n_min\<close> features scores above \<open>-inf\<close>, and the mask without features otherwise (when
  every such mask scores \<open>-inf\<close> or NaN, and when \<open>n < n_min\<close>, there being no mask to
  try). A pass of the \<open>while\<close> loop either stops, or continues with the mask that sets one
  more position: an addition whose score is above the score so far and which no other
  addition beats. No feature is ever removed, so at most \<open>n - set_bits start\<close> passes add a
  feature. The pass that stops is one pass more: the loop makes at most
  \<open>n - set_bits start + 1\<close> passes, at most \<open>n + 1\<close> whatever the start, and a search that
  returns has made exactly one pass more than it added features.
\<close>

theorem greedy_maximize_passes_bound:
  "(\<forall>start v0.
      exhaustive f n (combinations [0..<n] n_min) (replicate n False) NInf = Inr (start, v0) \<longrightarrow>
        length start = n
        \<and> (if \<exists>c\<in>set (combinations [0..<n] n_min). \<exists>x. f (mask_of n c) = Inr x \<and> above x NInf
           then set_bits start = n_min else start = replicate n False)
        \<and> greedy_maximize_passes f n n_min \<le> n - set_bits start + 1
        \<and> (\<forall>result. greedy_maximize f n n_min = Inr result \<longrightarrow>
              length result = n
              \<and> (\<forall>i<n. start ! i \<longrightarrow> result ! i)
              \<and> set_bits result + 1 = set_bits start + greedy_maximize_passes f n n_min))
   \<and> (n < n_min \<longrightarrow> combinations [0..<n] n_min = [])
   \<and> greedy_maximize_passes f n n_min \<le> n + 1
   \<and> (\<forall>best_mask best_value m v.
        scan f best_mask [0..<n] best_mask best_value = Inr (m, v) \<longrightarrow>
          (m = best_mask \<and> v = best_value)
          \<or> (\<exists>i<n. i < length best_mask \<and> \<not> best_mask ! i \<and> m = best_mask[i := True]
                \<and> f m = Inr (Val v) \<and> ext_less best_value v
                \<and> (\<forall>j<n. \<not> best_mask ! j \<longrightarrow>
                      (\<exists>u. f (best_mask[j := True]) = Inr u \<and> \<not> above u v))))"
  apply (intro conjI)
  subgoal by (intro allI impI) (erule greedy_from_start)
  subgoal by (simp add: combinations_empty)
  subgoal by (rule greedy_maximize_passes_le)
  subgoal by (intro allI impI) (erule greedy_pass)
  done

text \<open>An objective that counts the features, up to two: from the first mask of one feature
  among three, the search adds one feature and stops at the next pass.\<close>

lemma upt_three: "[0..<3] = [0, 1, 2]"
  by (simp add: numeral_3_eq_3 upt_rec)

lemma greedy_example_start:
  "exhaustive (\<lambda>m. Inr (fin (min 2 (real (set_bits m))))) 3 (combinations [0..<3] 1)
     (replicate 3 False) NInf = Inr ([True, False, False], Fin 1)"
  by (simp add: upt_three mask_of_def set_bits_def)

lemma greedy_example_result:
  "greedy_maximize (\<lambda>m. Inr (fin (min 2 (real (set_bits m))))) 3 1 = Inr [True, True, False]"
proof -
  have "greedy_loop (\<lambda>m. Inr (fin (min 2 (real (set_bits m))))) 3 [True, False, False] (Fin 1)
      = Inr [True, True, False]"
    by (simp add: greedy_loop.simps upt_three set_bits_def Let_def)
  then show ?thesis
    unfolding greedy_maximize_def greedy_example_start by simp
qed

theorem greedy_maximize_passes_bound_witness:
  "greedy_maximize (\<lambda>m. Inr (fin (min 2 (real (set_bits m))))) 3 1 = Inr [True, True, False]
   \<and> greedy_maximize_passes (\<lambda>m. Inr (fin (min 2 (real (set_bits m))))) 3 1 = 2
   \<and> greedy_maximize_passes (\<lambda>m. Inr (fin (min 2 (real (set_bits m))))) 3 1 \<le> 3 - 1 + 1"
proof -
  note facts = greedy_maximize_passes_bound [of "\<lambda>m. Inr (fin (min 2 (real (set_bits m))))" 3 1,
      THEN conjunct1, rule_format, OF greedy_example_start]
  from facts greedy_example_result
  have "set_bits [True, True, False] + 1
      = set_bits [True, False, False]
        + greedy_maximize_passes (\<lambda>m. Inr (fin (min 2 (real (set_bits m))))) 3 1"
    by blast
  then have two: "greedy_maximize_passes (\<lambda>m. Inr (fin (min 2 (real (set_bits m))))) 3 1 = 2"
    by (simp add: set_bits_def)
  then have "greedy_maximize_passes (\<lambda>m. Inr (fin (min 2 (real (set_bits m))))) 3 1 \<le> 3 - 1 + 1"
    by simp
  with two show ?thesis
    using greedy_example_result by simp
qed

text \<open>With one feature and two subtypes the starting mask already holds every feature: the
  loop makes one pass, the one that stops, while \<open>n - n_min\<close> is zero. With two features and
  four subtypes there is no mask of three features: the search starts from the mask without
  features, adds a feature and stops at the second pass.\<close>

lemma upt_two: "[0..<2] = [0, 1]"
  by (simp add: numeral_2_eq_2 upt_rec)

theorem greedy_maximize_passes_counterexample:
  "\<not> greedy_maximize_passes (\<lambda>m. Inr (fin (1 / 10 ^ 9))) 1 1 \<le> 1 - 1
   \<and> greedy_maximize (\<lambda>m. Inr (fin 1)) 2 3 = Inr [True, False]
   \<and> greedy_maximize_passes (\<lambda>m. Inr (fin 1)) 2 3 = 2"
proof (intro conjI)
  have "exhaustive (\<lambda>m. Inr (fin (1 / 10 ^ 9))) 1 (combinations [0..<1] 1) (replicate 1 False) NInf
      = Inr ([True], Fin (1 / 10 ^ 9))"
    by (simp add: mask_of_def)
  moreover have "greedy_passes (\<lambda>m. Inr (fin (1 / 10 ^ 9))) 1 [True] (Fin (1 / 10 ^ 9)) = 1"
    by (simp add: greedy_passes.simps)
  ultimately have "greedy_maximize_passes (\<lambda>m. Inr (fin (1 / 10 ^ 9))) 1 1 = 1"
    by (simp add: greedy_maximize_passes_def)
  then show "\<not> greedy_maximize_passes (\<lambda>m. Inr (fin (1 / 10 ^ 9))) 1 1 \<le> 1 - 1"
    by simp
next
  have start: "exhaustive (\<lambda>m. Inr (fin 1)) 2 (combinations [0..<2] 3) (replicate 2 False) NInf
      = Inr ([False, False], NInf)"
    by (simp add: upt_two numeral_3_eq_3 numeral_2_eq_2)
  have "greedy_loop (\<lambda>m. Inr (fin 1)) 2 [False, False] NInf = Inr [True, False]"
    by (simp add: greedy_loop.simps upt_two Let_def)
  with start show "greedy_maximize (\<lambda>m. Inr (fin 1)) 2 3 = Inr [True, False]"
    by (simp add: greedy_maximize_def)
  have "greedy_passes (\<lambda>m. Inr (fin 1)) 2 [False, False] NInf = 2"
    by (simp add: greedy_passes.simps upt_two Let_def)
  with start show "greedy_maximize_passes (\<lambda>m. Inr (fin 1)) 2 3 = 2"
    by (simp add: greedy_maximize_passes_def)
qed

section \<open>The objective of the feature subset search: properties\<close>

subsection \<open>The score of a mask with a covariance that fails the test\<close>

lemma collect_total:
  "\<forall>x\<in>set xs. \<exists>y. f x = Inr y \<Longrightarrow> collect f xs = Inr (map (\<lambda>x. projr (f x)) xs)"
proof (induction xs)
  case Nil
  then show ?case by simp
next
  case (Cons x xs)
  from Cons.prems obtain y where "f x = Inr y" by auto
  moreover from Cons have "collect f xs = Inr (map (\<lambda>x. projr (f x)) xs)" by simp
  ultimately show ?case by simp
qed

lemma is_positive_semi_definite_returns:
  assumes "\<forall>e. eigvalsh a = Inl e \<longrightarrow> e = LinAlgError"
  shows "\<exists>b. is_positive_semi_definite eigvalsh a = Inr b"
proof (cases "eigvalsh a")
  case (Inl e)
  with assms have "e = LinAlgError" by blast
  with Inl show ?thesis
    by (cases a) (auto simp: is_positive_semi_definite_def)
next
  case (Inr evs)
  then show ?thesis
    by (cases a) (auto simp: is_positive_semi_definite_def)
qed

text \<open>
  Let the mask fit the class matrices and let \<open>eigvalsh\<close> raise nothing but \<open>LinAlgError\<close>
  on the covariances of the masked classes. If the test finds one of these covariances not
  positive semi-definite, \<open>objective\<close> raises nothing and returns the constant \<open>10e-10\<close>,
  that is \<open>1 / 10 ^ 9\<close>.
\<close>

lemma objective_sentinel:
  assumes "collect (mask_columns feature_mask) class_mats = Inr masked_mats"
    and "\<forall>mat\<in>set masked_mats. \<forall>e. eigvalsh (np_cov mat) = Inl e \<longrightarrow> e = LinAlgError"
    and "\<exists>mat\<in>set masked_mats. is_positive_semi_definite eigvalsh (np_cov mat) = Inr False"
  shows "objective eigvalsh class_mats feature_mask = Inr (fin (1 / 10 ^ 9))"
proof -
  let ?psd = "is_positive_semi_definite eigvalsh"
  have "\<forall>a\<in>set (map np_cov masked_mats). \<exists>b. ?psd a = Inr b"
    using is_positive_semi_definite_returns assms(2) by auto
  then have stati: "collect ?psd (map np_cov masked_mats)
      = Inr (map (\<lambda>a. projr (?psd a)) (map np_cov masked_mats))"
    by (rule collect_total)
  from assms(3) obtain mat where "mat \<in> set masked_mats" "?psd (np_cov mat) = Inr False"
    by blast
  then have "mat \<in> set masked_mats" "\<not> projr (?psd (np_cov mat))"
    by simp_all
  then have "\<not> list_all (\<lambda>b. b) (map (\<lambda>a. projr (?psd a)) (map np_cov masked_mats))"
    unfolding list_all_iff by auto
  with assms(1) stati show ?thesis
    by (simp add: objective_def and_then_def Let_def)
qed

subsection \<open>The example evaluated\<close>

lemma example_masked_one:
  "collect (mask_columns [True, False]) example_class_mats
     = Inr [[[-3], [-3], [-1], [-1]], [[1], [1], [3], [3]]]"
  by (simp add: example_class_mats_def mask_columns_def)

lemma example_masked_two:
  "collect (mask_columns [True, True]) example_class_mats = Inr example_class_mats"
  by (simp add: example_class_mats_def mask_columns_def)

lemma example_cov_one:
  "np_cov [[-3], [-3], [-1], [-1]] = Scalar (4 / 3)" "np_cov [[1], [1], [3], [3]] = Scalar (4 / 3)"
  by (simp_all add: np_cov_def Let_def)

lemma example_cov_two:
  "np_cov [[-3, -1], [-3, 1], [-1, -1], [-1, 1]] = Matrix [[4 / 3, 0], [0, 4 / 3]]"
  "np_cov [[1, -1], [1, 1], [3, -1], [3, 1]] = Matrix [[4 / 3, 0], [0, 4 / 3]]"
  by (simp_all add: np_cov_def Let_def upt_two)

lemma example_psd_one:
  "is_positive_semi_definite eigvalsh_diagonal (Scalar x) = Inr False"
  by (simp add: is_positive_semi_definite_def eigvalsh_diagonal_def)

lemma example_psd_two:
  "is_positive_semi_definite eigvalsh_diagonal (Matrix [[4 / 3, 0], [0, 4 / 3]]) = Inr True"
  by (simp add: is_positive_semi_definite_def eigvalsh_diagonal_def upt_two)

lemma sqrt_16: "sqrt 16 = 4"
  by (rule real_sqrt_unique) simp_all

lemma example_means:
  "mean_axis0 [[-3, -1], [-3, 1], [-1, -1], [-1, 1]] = Inr [-2, 0]"
  "mean_axis0 [[1, -1], [1, 1], [3, -1], [3, 1]] = Inr [2, 0]"
  by (simp_all add: mean_axis0_def upt_two)

lemma example_edge_variance:
  "edge_variance example_class_mats [0, 0] = Inr 0"
  by (simp add: edge_variance_def example_class_mats_def mean_axis0_def upt_two np_var_def
      np_mean_def and_then_def vsub_def dotp_def)

lemma example_simplex: "simplex_volume_recursive [[-2, 0], [2, 0]] = Inr (- 4)"
  by (simp add: simplex_volume_recursive.simps and_then_def item_def norm2_def vsub_def Let_def
      sqrt_16)

lemma example_pdist: "pdist [[-2, 0], [2, 0]] = [4]"
  by (simp add: pdist_def upt_two norm2_def vsub_def sqrt_16)

lemma example_edge_variance_unfolded:
  "edge_variance [[[-3, -1], [-3, 1], [-1, -1], [-1, 1]], [[1, -1], [1, 1], [3, -1], [3, 1]]]
     [0, 0] = Inr 0"
  using example_edge_variance by (simp add: example_class_mats_def)

lemma example_objective_two:
  "objective eigvalsh_diagonal example_class_mats [True, True] = Inr (fin (- 4))"
  by (simp add: objective_def example_class_mats_def mask_columns_def example_cov_two
      example_psd_two example_means example_edge_variance_unfolded example_simplex example_pdist
      and_then_def Let_def upt_two vsub_def np_max_def np_min_def)

lemma example_objective_one:
  "objective eigvalsh_diagonal example_class_mats [True, False] = Inr (fin (1 / 10 ^ 9))"
  by (simp add: objective_def example_class_mats_def mask_columns_def example_cov_one
      example_psd_one and_then_def Let_def)

text \<open>
  C5. A mask with a covariance that fails the test is to score strictly below a mask whose
  covariances all pass it. In the example (two classes of four samples, two features, the
  class means \<open>(-2, 0)\<close> and \<open>(2, 0)\<close>) the mask of the first feature alone fails the test
  for both classes and scores \<open>1 / 10 ^ 9\<close>, although the variance \<open>4 / 3\<close> of its one
  column is positive: the covariance of a single column is a zero-dimensional array, on which
  \<open>eigvalsh\<close> raises the \<open>LinAlgError\<close> that the test catches. The mask of both features
  passes the test for both classes, with the same distance between the class means, and
  scores \<open>-4\<close>: \<open>simplex_volume_recursive\<close> returns for one vector its first coordinate,
  here \<open>-2\<close>, where its comment announces a length. So the score of the mask that fails the
  test is above, not below, the score of the mask that passes it.
\<close>

theorem objective_sentinel_not_lower:
  "collect (mask_columns [True, False]) example_class_mats
     = Inr [[[-3], [-3], [-1], [-1]], [[1], [1], [3], [3]]]
   \<and> map np_cov [[[-3], [-3], [-1], [-1]], [[1], [1], [3], [3]]]
       = [Scalar (4 / 3), Scalar (4 / 3)]
   \<and> collect (is_positive_semi_definite eigvalsh_diagonal)
         (map np_cov [[[-3], [-3], [-1], [-1]], [[1], [1], [3], [3]]]) = Inr [False, False]
   \<and> collect (mask_columns [True, True]) example_class_mats = Inr example_class_mats
   \<and> collect (is_positive_semi_definite eigvalsh_diagonal) (map np_cov example_class_mats)
       = Inr [True, True]
   \<and> simplex_volume_recursive [[-2, 0]] = Inr (- 2)
   \<and> objective eigvalsh_diagonal example_class_mats [True, False] = Inr (fin (1 / 10 ^ 9))
   \<and> objective eigvalsh_diagonal example_class_mats [True, True] = Inr (fin (- 4))
   \<and> above (fin (1 / 10 ^ 9)) (Fin (- 4))"
proof (intro conjI)
  show "collect (mask_columns [True, False]) example_class_mats
     = Inr [[[-3], [-3], [-1], [-1]], [[1], [1], [3], [3]]]"
    by (rule example_masked_one)
  show "map np_cov [[[-3], [-3], [-1], [-1]], [[1], [1], [3], [3]]]
       = [Scalar (4 / 3), Scalar (4 / 3)]"
    by (simp add: example_cov_one)
  show "collect (is_positive_semi_definite eigvalsh_diagonal)
         (map np_cov [[[-3], [-3], [-1], [-1]], [[1], [1], [3], [3]]]) = Inr [False, False]"
    by (simp add: example_cov_one example_psd_one)
  show "collect (mask_columns [True, True]) example_class_mats = Inr example_class_mats"
    by (rule example_masked_two)
  show "collect (is_positive_semi_definite eigvalsh_diagonal) (map np_cov example_class_mats)
       = Inr [True, True]"
    by (simp add: example_class_mats_def example_cov_two example_psd_two)
  show "simplex_volume_recursive [[-2, 0]] = Inr (- 2)"
    by (simp add: simplex_volume_recursive.simps item_def)
  show "objective eigvalsh_diagonal example_class_mats [True, False] = Inr (fin (1 / 10 ^ 9))"
    by (rule example_objective_one)
  show "objective eigvalsh_diagonal example_class_mats [True, True] = Inr (fin (- 4))"
    by (rule example_objective_two)
  show "above (fin (1 / 10 ^ 9)) (Fin (- 4))"
    by simp
qed

subsection \<open>Means of classes without rows\<close>

text \<open>
  The model marks the mean of an empty array with \<open>NotFinite\<close> where NumPy returns NaN. The
  objective never stops there: a class without rows has a covariance of NaN and fails the
  test, so the means are used only for classes with rows, and so are the variances along the
  edges. Unless \<open>eigvalsh\<close> itself answers \<open>NotFinite\<close>, whatever \<open>objective\<close> answers
  is a float the code returns or an exception it raises.
\<close>

lemma collect_error: "collect f xs = Inl e \<Longrightarrow> \<exists>x\<in>set xs. f x = Inl e"
proof (induction xs)
  case Nil
  then show ?case by simp
next
  case (Cons x xs)
  then show ?case
    by (cases "f x"; cases "collect f xs") auto
qed

lemma collect_results:
  "collect f xs = Inr ys \<Longrightarrow> ys = map (\<lambda>x. projr (f x)) xs \<and> (\<forall>x\<in>set xs. f x = Inr (projr (f x)))"
proof (induction xs arbitrary: ys)
  case Nil
  then show ?case by simp
next
  case (Cons x xs)
  then show ?case
    by (cases "f x"; cases "collect f xs") auto
qed

lemma simplex_volume_recursive_error:
  "simplex_volume_recursive vectors = Inl e \<Longrightarrow> e = RecursionError \<or> e = IndexError"
proof (induction vectors rule: simplex_volume_recursive.induct)
  case (1 vectors)
  show ?case
  proof (cases "vectors = [] \<or> length vectors = 1")
    case True
    with "1.prems" show ?thesis
      by (subst (asm) simplex_volume_recursive.simps) (auto simp: item_def split: if_splits)
  next
    case False
    with "1.prems" have "simplex_volume_recursive (butlast vectors) = Inl e"
      by (subst (asm) simplex_volume_recursive.simps)
        (cases "simplex_volume_recursive (butlast vectors)"; simp add: and_then_def Let_def)
    with "1.IH" False show ?thesis by simp
  qed
qed

lemma np_var_returns: "xs \<noteq> [] \<Longrightarrow> \<exists>r. np_var xs = Inr r"
  by (simp add: np_var_def np_mean_def and_then_def)

lemma edge_variance_returns:
  assumes "masked_mats \<noteq> []" and "\<forall>mat\<in>set masked_mats. mat \<noteq> []"
  shows "\<exists>r. edge_variance masked_mats edge = Inr r"
proof -
  let ?f = "\<lambda>masked_mat. and_then (mean_axis0 masked_mat) (\<lambda>centre.
            np_var (map (\<lambda>row. dotp (vsub row centre) edge) masked_mat))"
  have "\<exists>y. ?f mat = Inr y" if "mat \<in> set masked_mats" for mat
  proof -
    from that assms(2) have ne: "mat \<noteq> []" by simp
    then obtain centre where centre: "mean_axis0 mat = Inr centre"
      by (simp add: mean_axis0_def)
    from ne have "map (\<lambda>row. dotp (vsub row centre) edge) mat \<noteq> []" by simp
    then have "\<exists>r. np_var (map (\<lambda>row. dotp (vsub row centre) edge) mat) = Inr r"
      by (rule np_var_returns)
    with centre show ?thesis by (simp add: and_then_def)
  qed
  then have "\<forall>mat\<in>set masked_mats. \<exists>y. ?f mat = Inr y" by blast
  then have "collect ?f masked_mats = Inr (map (\<lambda>mat. projr (?f mat)) masked_mats)"
    by (rule collect_total)
  with assms(1) show ?thesis
    by (simp add: edge_variance_def and_then_def np_mean_def)
qed

lemma objective_not_finite_unreached:
  assumes "objective eigvalsh class_mats feature_mask = Inl e"
    and "\<forall>a. eigvalsh a \<noteq> Inl NotFinite"
  shows "e \<noteq> NotFinite"
proof (cases "collect (mask_columns feature_mask) class_mats")
  case (Inl e1)
  with assms(1) have "e = e1"
    by (simp add: objective_def and_then_def)
  moreover from collect_error [OF Inl] obtain mat where "mask_columns feature_mask mat = Inl e1"
    by blast
  then have "e1 = IndexError"
    by (simp add: mask_columns_def split: if_splits)
  ultimately show ?thesis by simp
next
  case masked: (Inr masked_mats)
  let ?psd = "is_positive_semi_definite eigvalsh"
  show ?thesis
  proof (cases "collect ?psd (map np_cov masked_mats)")
    case (Inl e2)
    with assms(1) masked have "e = e2"
      by (simp add: objective_def and_then_def Let_def)
    moreover from collect_error [OF Inl] obtain a where "?psd a = Inl e2"
      by blast
    then have "eigvalsh a = Inl e2"
      by (auto simp: is_positive_semi_definite_def split: ndarray.splits sum.splits if_splits)
    with assms(2) have "e2 \<noteq> NotFinite"
      by metis
    ultimately show ?thesis by simp
  next
    case stati: (Inr psd_stati)
    show ?thesis
    proof (cases "list_all (\<lambda>b. b) psd_stati")
      case False
      with assms(1) masked stati show ?thesis
        by (simp add: objective_def and_then_def Let_def)
    next
      case True
      note res = collect_results [OF stati]
      have nonempty: "\<forall>mat\<in>set masked_mats. mat \<noteq> []"
      proof
        fix mat
        assume mat: "mat \<in> set masked_mats"
        with res have "?psd (np_cov mat) = Inr (projr (?psd (np_cov mat)))"
          by simp
        moreover from mat res True have "projr (?psd (np_cov mat))"
          by (simp add: list_all_iff)
        ultimately have "?psd (np_cov mat) = Inr True"
          by simp
        then show "mat \<noteq> []"
          by (auto simp: np_cov_def is_positive_semi_definite_def)
      qed
      define mvs where "mvs = map (\<lambda>mat. projr (mean_axis0 mat)) masked_mats"
      define edges where "edges = concat (map (\<lambda>i. replicate i (vsub (mvs ! i) (mvs ! i)))
          [0..<length mvs])"
      from nonempty have "\<forall>v\<in>set (map mean_axis0 masked_mats). \<exists>y. v = Inr y"
        by (auto simp: mean_axis0_def)
      then have "collect (\<lambda>v. v) (map mean_axis0 masked_mats)
          = Inr (map (\<lambda>v. projr v) (map mean_axis0 masked_mats))"
        by (rule collect_total)
      then have means: "collect (\<lambda>v. v) (map mean_axis0 masked_mats) = Inr mvs"
        by (simp add: mvs_def comp_def)
      have "\<forall>edge\<in>set edges. \<exists>r. edge_variance masked_mats edge = Inr r"
      proof
        fix edge
        assume "edge \<in> set edges"
        then have "mvs \<noteq> []"
          by (auto simp: edges_def)
        then have "masked_mats \<noteq> []"
          by (simp add: mvs_def)
        then show "\<exists>r. edge_variance masked_mats edge = Inr r"
          using nonempty by (rule edge_variance_returns)
      qed
      then have "collect (edge_variance masked_mats) edges
          = Inr (map (\<lambda>edge. projr (edge_variance masked_mats edge)) edges)"
        by (rule collect_total)
      then obtain evs where evs: "collect (edge_variance masked_mats) edges = Inr evs"
        by blast
      note run = masked stati True means evs [unfolded edges_def]
      show ?thesis
      proof (cases "simplex_volume_recursive mvs")
        case (Inl e3)
        with assms(1) run have "e = e3"
          by (simp add: objective_def and_then_def Let_def)
        with simplex_volume_recursive_error [OF Inl] show ?thesis by auto
      next
        case simplex: (Inr sv)
        show ?thesis
        proof (cases "pdist mvs = []")
          case True
          with assms(1) run simplex have "e = ValueError"
            by (simp add: objective_def and_then_def Let_def np_max_def)
          then show ?thesis by simp
        next
          case False
          with assms(1) run simplex show ?thesis
            by (simp add: objective_def and_then_def Let_def np_max_def np_min_def)
        qed
      qed
    qed
  qed
qed

subsection \<open>Classes whose means coincide\<close>

text \<open>
  With three classes of which two have the same mean, the shortest distance between two
  means is zero: the penalty is an infinity and the score \<open>0.0\<close>.
\<close>

lemma example_cov_three:
  "np_cov [[-1, -1], [-1, 1], [1, -1], [1, 1]] = Matrix [[4 / 3, 0], [0, 4 / 3]]"
  "np_cov [[3, -1], [3, 1], [5, -1], [5, 1]] = Matrix [[4 / 3, 0], [0, 4 / 3]]"
  by (simp_all add: np_cov_def Let_def upt_two)

lemma example_means_three:
  "mean_axis0 [[-1, -1], [-1, 1], [1, -1], [1, 1]] = Inr [0, 0]"
  "mean_axis0 [[3, -1], [3, 1], [5, -1], [5, 1]] = Inr [4, 0]"
  by (simp_all add: mean_axis0_def upt_two)

lemma example_edge_variance_three:
  "edge_variance [[[-1, -1], [-1, 1], [1, -1], [1, 1]], [[-1, -1], [-1, 1], [1, -1], [1, 1]],
     [[3, -1], [3, 1], [5, -1], [5, 1]]] [0, 0] = Inr 0"
  by (simp add: edge_variance_def example_means_three np_var_def np_mean_def and_then_def
      vsub_def dotp_def)

lemma example_simplex_three: "simplex_volume_recursive [[0, 0], [0, 0], [4, 0]] = Inr 0"
  by (simp add: simplex_volume_recursive.simps and_then_def item_def norm2_def vsub_def Let_def)

lemma example_pdist_three: "pdist [[0, 0], [0, 0], [4, 0]] = [0, 4, 4]"
  by (simp add: pdist_def upt_three norm2_def vsub_def sqrt_16 upt_rec)

lemma objective_coincident_means:
  "objective eigvalsh_diagonal
     [[[-1, -1], [-1, 1], [1, -1], [1, 1]], [[-1, -1], [-1, 1], [1, -1], [1, 1]],
      [[3, -1], [3, 1], [5, -1], [5, 1]]] [True, True] = Inr (fin 0)"
  by (simp add: objective_def mask_columns_def example_cov_three example_psd_two
      example_means_three example_edge_variance_three example_simplex_three example_pdist_three
      and_then_def Let_def upt_three vsub_def np_max_def np_min_def)

section \<open>Orthogonalisation and projection: properties\<close>

subsection \<open>Vectors of one length\<close>


















subsection \<open>The inner product\<close>













subsection \<open>Sums of vectors and the projection on a basis\<close>





lemma collect_map: "\<forall>x\<in>set xs. f x = Inr (g x) \<Longrightarrow> collect f xs = Inr (map g xs)"
  by (induction xs) simp_all













subsection \<open>Spans\<close>








subsection \<open>One step of the orthogonalisation\<close>






subsection \<open>The whole orthogonalisation\<close>



subsection \<open>Whatever the rounding\<close>

text \<open>On vectors of one dimension the two functions raise nothing, whatever the rounding and
  whatever the floats: \<open>gram_schmidt\<close> returns one vector of that dimension per input
  vector, and \<open>transform_to_basis\<close> a difference of that dimension.\<close>

lemma length_foldl_fl_add:
  "\<forall>t\<in>set ts. length t = length z \<Longrightarrow> length (foldl (map2 (fl_add rnd)) z ts) = length z"
proof (induction ts arbitrary: z)
  case Nil
  then show ?case by simp
next
  case (Cons t ts)
  from Cons.prems have len: "length (map2 (fl_add rnd) z t) = length z"
    by simp
  with Cons.prems have "\<forall>u\<in>set ts. length u = length (map2 (fl_add rnd) z t)"
    by simp
  from Cons.IH [OF this] len show ?case by simp
qed

lemma residual_returns:
  assumes "\<forall>b\<in>set basis. length b = length v"
  shows "\<exists>w. residual rnd v basis = Inr w \<and> length w = length v"
proof -
  let ?dot = "\<lambda>b. foldl (\<lambda>s (x, y). fl_add rnd s (fl_mul rnd x y)) (fin 0) (zip v b)"
  have terms: "collect (\<lambda>b. and_then (np_dot rnd v b) (\<lambda>c. Inr (map (fl_mul rnd c) b))) basis
      = Inr (map (\<lambda>b. map (fl_mul rnd (?dot b)) b) basis)"
    using assms by (intro collect_map) (simp add: np_dot_def and_then_def)
  have "length (foldl (map2 (fl_add rnd)) (replicate (length v) (fin 0))
          (map (\<lambda>b. map (fl_mul rnd (?dot b)) b) basis)) = length (replicate (length v) (fin 0))"
    using assms by (intro length_foldl_fl_add) simp
  then show ?thesis
    unfolding residual_def terms by (simp add: and_then_def)
qed

lemma gram_schmidt_loop_returns:
  "\<forall>b\<in>set basis. length b = d \<Longrightarrow> \<forall>v\<in>set vectors. length v = d \<Longrightarrow>
   \<exists>final. gram_schmidt_loop rnd basis vectors = Inr final
     \<and> length final = length basis + length vectors \<and> (\<forall>b\<in>set final. length b = d)"
proof (induction vectors arbitrary: basis)
  case Nil
  then show ?case by simp
next
  case (Cons v rest)
  from Cons.prems have "\<forall>b\<in>set basis. length b = length v"
    by simp
  from residual_returns [OF this] obtain w
    where w: "residual rnd v basis = Inr w" "length w = length v"
    by blast
  let ?q = "map (\<lambda>x. fl_div rnd x (np_norm rnd w)) w"
  from Cons.prems w(2) have "\<forall>b\<in>set (basis @ [?q]). length b = d" "\<forall>v\<in>set rest. length v = d"
    by simp_all
  from Cons.IH [OF this] obtain final
    where "gram_schmidt_loop rnd (basis @ [?q]) rest = Inr final"
      "length final = length (basis @ [?q]) + length rest" "\<forall>b\<in>set final. length b = d"
    by blast
  with w(1) show ?case
    by (simp add: and_then_def)
qed

lemma transform_to_basis_returns:
  assumes "basis \<noteq> []" and "\<forall>b\<in>set basis. length b = length v"
  shows "\<exists>projected_vector difference_vector.
     transform_to_basis rnd v basis = Inr (projected_vector, difference_vector)
     \<and> length projected_vector = length basis \<and> length difference_vector = length v"
proof -
  let ?dot = "\<lambda>b. foldl (\<lambda>s (x, y). fl_add rnd s (fl_mul rnd x y)) (fin 0) (zip v b)"
  have p: "collect (np_dot rnd v) basis = Inr (map ?dot basis)"
    using assms(2) by (intro collect_map) (simp add: np_dot_def)
  have "\<forall>t\<in>set (map2 (\<lambda>c b. map (fl_mul rnd c) b) (map ?dot basis) basis).
      length t = length (replicate (length v) (fin 0 :: xfloat))"
    using assms(2) by (auto simp: set_zip)
  then have "length (foldl (map2 (fl_add rnd)) (replicate (length v) (fin 0))
          (map2 (\<lambda>c b. map (fl_mul rnd c) b) (map ?dot basis) basis))
      = length (replicate (length v) (fin 0 :: xfloat))"
    by (rule length_foldl_fl_add)
  with assms(1) show ?thesis
    unfolding transform_to_basis_def p by (simp add: and_then_def Let_def)
qed

subsection \<open>Without rounding\<close>

text \<open>On finite vectors and with the identity for rounding, \<open>gram_schmidt\<close> and
  \<open>transform_to_basis\<close> compute what the exact orthogonalisation computes, as long as no
  residual vanishes.\<close>

lemma fl_id:
  "fl_add id (fin a) (fin b) = fin (a + b)"
  "fl_sub id (fin a) (fin b) = fin (a - b)"
  "fl_mul id (fin a) (fin b) = fin (a * b)"
  "b \<noteq> 0 \<Longrightarrow> fl_div id (fin a) (fin b) = fin (a / b)"
  "0 \<le> a \<Longrightarrow> fl_sqrt id (fin a) = fin (sqrt a)"
  by (simp_all add: fl_add_def fl_sub_def fl_mul_def fl_div_def fl_sqrt_def xsub_def)






lemma map_fl_mul: "map (fl_mul id (fin c)) (map fin b) = map fin (scale c b)"
  by (simp add: scale_def fl_id)












subsection \<open>Double precision\<close>


























end
